theory Spec2Isabelle
  imports Main
begin

section \<open>The SSE streaming client of \<open>services/api\<close>: \<open>streamChat\<close> and \<open>streamChatPublic\<close>\<close>

text \<open>
  The two functions open an HTTP request, read the response body chunk by chunk, cut it
  into lines, read the lines as server-sent events and report to three callbacks.
  Both are asynchronous: between two \<open>await\<close>s the code runs to completion, so a stream
  is modelled as a state (the variables of the closure, the point where the asynchronous
  function is suspended, and what the outside world has seen of it) and one step per
  event of the JavaScript event loop (an awaited promise settles, the flush timer fires,
  the caller invokes the cancel function). A callback is recorded when it is invoked; it
  is assumed to return normally and not to call back into the stream.

  Strings are lists of code units, here \<open>char\<close>; a \<open>char\<close> with code \<open>n\<close> stands for the
  code unit \<open>U+00n\<close>, so the model covers text within Latin-1.
\<close>

subsection \<open>String primitives of ECMAScript used by the code\<close>

definition LF :: char where
  "LF = CHR 0x0A"

text \<open>White space and line terminators of \<open>String.prototype.trim\<close>, below \<open>U+0100\<close>.\<close>

definition is_whitespace :: "char \<Rightarrow> bool" where
  "is_whitespace c \<longleftrightarrow>
     c = CHR 0x09 \<or> c = CHR 0x0A \<or> c = CHR 0x0B \<or> c = CHR 0x0C \<or> c = CHR 0x0D \<or>
     c = CHR 0x20 \<or> c = CHR 0xA0"

definition trim :: "string \<Rightarrow> string" where
  "trim s = rev (dropWhile is_whitespace (rev (dropWhile is_whitespace s)))"

text \<open>\<open>s.split(sep)\<close> for a separator of one code unit: never empty, \<open>''''.split\<close> is \<open>['''']\<close>.\<close>

fun split :: "char \<Rightarrow> string \<Rightarrow> string list" where
  "split sep [] = [[]]"
| "split sep (c # cs) =
     (if c = sep then [] # split sep cs
      else (case split sep cs of
              [] \<Rightarrow> [[c]]
            | piece # pieces \<Rightarrow> (c # piece) # pieces))"

definition startsWith :: "string \<Rightarrow> string \<Rightarrow> bool" where
  "startsWith s p \<longleftrightarrow> take (length p) s = p"

text \<open>\<open>s.slice(n)\<close> for \<open>n \<ge> 0\<close>.\<close>

definition slice :: "nat \<Rightarrow> string \<Rightarrow> string" where
  "slice n s = drop n s"

text \<open>Decimal digits of a non-negative integer, as a template literal prints it.\<close>

fun decimal :: "nat \<Rightarrow> string" where
  "decimal n =
     (if n < 10 then [''0123456789'' ! n]
      else decimal (n div 10) @ [''0123456789'' ! (n mod 10)])"

declare decimal.simps [simp del]

subsection \<open>Values: what \<open>JSON.parse\<close> returns, property reads, conversions\<close>

text \<open>
  The type \<open>'n\<close> of numbers is left open: the code only passes numbers on, tests them for
  truth and prints them, and these are operations of the platform.
\<close>

datatype 'n json =
    JNull
  | JBool bool
  | JNum 'n
  | JStr string
  | JArr "'n json list"
  | JObj "(string \<times> 'n json) list"

text \<open>A value or \<open>undefined\<close>.\<close>

datatype 'n jsval = Undefined | Val "'n json"

text \<open>
  The platform: \<open>JSON.parse\<close> (\<open>None\<close> is the \<open>SyntaxError\<close>), the conversions of a number
  to boolean and to string, and the messages of the two \<open>TypeError\<close>s that the code can
  meet: reading the named property of \<open>null\<close>, and converting to a string a value that
  has no string conversion.
\<close>

record 'n platform =
  JSON_parse :: "string \<Rightarrow> 'n json option"
  Number_ToBoolean :: "'n \<Rightarrow> bool"
  Number_ToString :: "'n \<Rightarrow> string"
  TypeError_null :: "string \<Rightarrow> string"
  TypeError_primitive :: "'n json \<Rightarrow> string"

text \<open>
  \<open>v.name\<close> for a value \<open>v\<close> that \<open>JSON.parse\<close> returned and a name among \<open>event\<close>,
  \<open>data\<close>, \<open>conversation_id\<close>, \<open>detail\<close> (no prototype has them): \<open>None\<close> is the
  \<open>TypeError\<close> of reading a property of \<open>null\<close>. Of a repeated key the last one counts.
\<close>

fun Get :: "'n json \<Rightarrow> string \<Rightarrow> 'n jsval option" where
  "Get JNull name = None"
| "Get (JObj kvs) name =
     Some (case map_of (rev kvs) name of None \<Rightarrow> Undefined | Some v \<Rightarrow> Val v)"
| "Get v name = Some Undefined"

fun ToBoolean :: "'n platform \<Rightarrow> 'n jsval \<Rightarrow> bool" where
  "ToBoolean P Undefined = False"
| "ToBoolean P (Val JNull) = False"
| "ToBoolean P (Val (JBool b)) = b"
| "ToBoolean P (Val (JNum n)) = Number_ToBoolean P n"
| "ToBoolean P (Val (JStr s)) = (s \<noteq> [])"
| "ToBoolean P (Val (JArr xs)) = True"
| "ToBoolean P (Val (JObj kvs)) = True"

fun join :: "string \<Rightarrow> string list \<Rightarrow> string" where
  "join sep [] = []"
| "join sep [x] = x"
| "join sep (x # y # ys) = x @ sep @ join sep (y # ys)"

text \<open>
  The string conversion of a value that \<open>JSON.parse\<close> returned, as \<open>visualBuffer += x\<close>
  and \<open>new Error(x)\<close> perform it; \<open>None\<close> is the \<open>TypeError\<close> of a value without one. An
  object is converted by the method \<open>toString\<close> that it inherits, unless it has a member
  of that name: a member from JSON is not callable, \<open>valueOf\<close> (inherited, or a member)
  gives no primitive either, and the conversion throws. An array is converted by the
  \<open>join\<close> that it inherits: its elements separated by commas, \<open>null\<close> elements as nothing,
  and throwing when the conversion of an element does.
\<close>

fun ToString :: "'n platform \<Rightarrow> 'n json \<Rightarrow> string option" where
  "ToString P JNull = Some ''null''"
| "ToString P (JBool b) = Some (if b then ''true'' else ''false'')"
| "ToString P (JNum n) = Some (Number_ToString P n)"
| "ToString P (JStr s) = Some s"
| "ToString P (JArr xs) =
     (case those (map (\<lambda>x. if x = JNull then Some [] else ToString P x) xs) of
        None \<Rightarrow> None
      | Some parts \<Rightarrow> Some (join '','' parts))"
| "ToString P (JObj kvs) =
     (if ''toString'' \<in> set (map fst kvs) then None else Some ''[object Object]'')"

subsection \<open>The state of one stream\<close>

datatype variant = Authenticated | Public

text \<open>Which of the optional callbacks the caller passed (\<open>onToken\<close> is required).\<close>

record handlers =
  has_onError :: bool
  has_onComplete :: bool

text \<open>A callback invocation: \<open>onError\<close> with the message of the \<open>Error\<close> it receives.\<close>

datatype 'n callback =
    OnToken "'n json"
  | OnError string
  | OnComplete "'n jsval"

text \<open>What a promise rejects with: an instance of \<open>Error\<close> (with its message) or not.\<close>

datatype thrown = ErrorInstance string | NotAnError

record response =
  status :: nat
  statusText :: string
  body_present :: bool

definition ok :: "response \<Rightarrow> bool" where
  "ok r \<longleftrightarrow> 200 \<le> status r \<and> status r \<le> 299"

text \<open>A call of \<open>fetch\<close>: the endpoint and the bearer token of the \<open>Authorization\<close> header.\<close>

datatype request = Fetch string "string option"

text \<open>Where the asynchronous function is suspended.\<close>

datatype phase =
    AwaitFetch
  | AwaitJson response
  | AwaitRead
  | Finished

text \<open>The function given back to the caller: \<open>cancel\<close>, or \<open>() => {}\<close>.\<close>

datatype handle = CancelFn | NoOp

record 'n stream =
  visualBuffer :: string
  flushTimeout :: bool
  aborted :: bool
  buffer :: string
  currentEvent :: "string option"
  phase :: phase
  handle :: handle
  signal_aborted :: bool
  timers :: nat
  auth_token :: "string option"
  requests :: "request list"
  calls :: "'n callback list"

text \<open>
  \<open>flushTimeout\<close> is \<open>number | null\<close> in the source and only tested for null (a timer
  handle is never zero); \<open>timers\<close> counts the \<open>flush\<close> callbacks that \<open>setTimeout\<close> has
  scheduled and that have not run yet; \<open>auth_token\<close> is \<open>localStorage['auth_token']\<close>;
  \<open>requests\<close> and \<open>calls\<close> record the calls of \<open>fetch\<close> and of the callbacks in order.
\<close>

text \<open>The events of the event loop that reach a stream.\<close>

datatype 'n event =
    FetchFulfilled response
  | FetchRejected thrown
  | JsonSettled "'n json option"
  | ReadChunk string
  | ReadDone
  | ReadRejected thrown
  | TimerFired
  | CancelCalled

text \<open>
  \<open>JsonSettled\<close> is \<open>response.json()\<close> of an error response settling: with the parsed body,
  or \<open>None\<close> when it rejects. \<open>ReadChunk\<close> carries the text that the \<open>TextDecoder\<close> returns
  for the chunk read.
\<close>

subsection \<open>Token storage\<close>

definition removeToken :: "'n stream \<Rightarrow> 'n stream" where
  "removeToken s = s\<lparr>auth_token := None\<rparr>"

text \<open>\<open>if (token)\<close>: neither \<open>null\<close> nor the empty string.\<close>

definition truthy_token :: "string option \<Rightarrow> bool" where
  "truthy_token t \<longleftrightarrow> t \<noteq> None \<and> t \<noteq> Some []"

subsection \<open>The closures \<open>flush\<close> and \<open>cancel\<close>, and the callbacks\<close>

definition flush :: "'n stream \<Rightarrow> 'n stream" where
  "flush s =
     (if visualBuffer s \<noteq> []
      then s\<lparr>calls := calls s @ [OnToken (JStr (visualBuffer s))], visualBuffer := []\<rparr>
      else s) \<lparr>flushTimeout := False\<rparr>"

definition cancel :: "'n stream \<Rightarrow> 'n stream" where
  "cancel s =
     (case handle s of
        NoOp \<Rightarrow> s
      | CancelFn \<Rightarrow> s\<lparr>aborted := True, signal_aborted := True\<rparr>)"

text \<open>\<open>visualBuffer += text; if (!flushTimeout) flushTimeout = window.setTimeout(flush, 30)\<close>\<close>

definition append_visual :: "string \<Rightarrow> 'n stream \<Rightarrow> 'n stream" where
  "append_visual text s =
     (let s1 = s\<lparr>visualBuffer := visualBuffer s @ text\<rparr>
      in if \<not> flushTimeout s1 then s1\<lparr>flushTimeout := True, timers := timers s1 + 1\<rparr>
         else s1)"

text \<open>\<open>if (onComplete) onComplete(v)\<close>\<close>

definition onComplete :: "handlers \<Rightarrow> 'n jsval \<Rightarrow> 'n stream \<Rightarrow> 'n stream" where
  "onComplete h v s =
     (if has_onComplete h then s\<lparr>calls := calls s @ [OnComplete v]\<rparr> else s)"

text \<open>The \<open>catch\<close> block of the asynchronous function, which ends it.\<close>

definition catch_block :: "handlers \<Rightarrow> thrown \<Rightarrow> 'n stream \<Rightarrow> 'n stream" where
  "catch_block h e s =
     (if \<not> aborted s \<and> has_onError h
      then s\<lparr>calls := calls s @
             [OnError (case e of
                         ErrorInstance m \<Rightarrow> m
                       | NotAnError \<Rightarrow> ''Error desconocido al recibir el stream'')]\<rparr>
      else s) \<lparr>phase := Finished\<rparr>"

subsection \<open>One line of the response\<close>

text \<open>The body of the \<open>for\<close> loop either goes on to the next line or returns from the
  asynchronous function.\<close>

datatype 'n outcome = Continue "'n stream" | Return "'n stream"

text \<open>The data of a \<open>done\<close> event: \<open>try { onComplete(JSON.parse(dataStr).conversation_id) }
  catch { onComplete() }\<close>, each call only if \<open>onComplete\<close> was passed.\<close>

definition done_event :: "'n platform \<Rightarrow> handlers \<Rightarrow> string \<Rightarrow> 'n stream \<Rightarrow> 'n stream" where
  "done_event P h dataStr s =
     (case JSON_parse P dataStr of
        None \<Rightarrow> onComplete h Undefined s
      | Some data \<Rightarrow>
          if has_onComplete h
          then (case Get data ''conversation_id'' of
                  None \<Rightarrow> onComplete h Undefined s
                | Some v \<Rightarrow> onComplete h v s)
          else s)"

text \<open>\<open>data.data?.conversation_id\<close>\<close>

definition optional_conversation_id :: "'n jsval \<Rightarrow> 'n jsval" where
  "optional_conversation_id d =
     (case d of
        Undefined \<Rightarrow> Undefined
      | Val JNull \<Rightarrow> Undefined
      | Val v \<Rightarrow> (case Get v ''conversation_id'' of None \<Rightarrow> Undefined | Some c \<Rightarrow> c))"

text \<open>The \<open>catch\<close> of the last branch: without a current event the data is a token.\<close>

definition raw_fallback :: "string \<Rightarrow> 'n stream \<Rightarrow> 'n stream" where
  "raw_fallback dataStr s =
     (if currentEvent s = None \<or> currentEvent s = Some []
      then append_visual dataStr s else s)"

text \<open>The last branch (no event, or an unknown one): the data is tried as JSON. Here
  the two functions differ: for a token \<open>streamChat\<close> calls \<open>onToken(data.data)\<close>,
  \<open>streamChatPublic\<close> appends \<open>data.data\<close> to \<open>visualBuffer\<close>, which converts it to a
  string. Whatever throws inside the \<open>try\<close> goes to the \<open>catch\<close>: the \<open>SyntaxError\<close> of
  \<open>JSON.parse\<close>, the \<open>TypeError\<close> of reading a property of \<open>null\<close>, and the \<open>TypeError\<close>
  of the conversion.\<close>

definition legacy_event ::
  "'n platform \<Rightarrow> variant \<Rightarrow> handlers \<Rightarrow> string \<Rightarrow> 'n stream \<Rightarrow> 'n outcome" where
  "legacy_event P v h dataStr s =
     (case JSON_parse P dataStr of
        None \<Rightarrow> Continue (raw_fallback dataStr s)
      | Some data \<Rightarrow>
          (case Get data ''event'' of
             None \<Rightarrow> Continue (raw_fallback dataStr s)
           | Some ev \<Rightarrow>
               (case Get data ''data'' of
                  None \<Rightarrow> Continue (raw_fallback dataStr s)
                | Some d \<Rightarrow>
                    if ev = Val (JStr ''token'') \<and> ToBoolean P d
                    then (case d of
                            Undefined \<Rightarrow> Continue s
                          | Val x \<Rightarrow>
                              (case v of
                                 Authenticated \<Rightarrow> Continue (s\<lparr>calls := calls s @ [OnToken x]\<rparr>)
                               | Public \<Rightarrow>
                                   (case ToString P x of
                                      None \<Rightarrow> Continue (raw_fallback dataStr s)
                                    | Some text \<Rightarrow> Continue (append_visual text s))))
                    else if ev = Val (JStr ''done'')
                    then Return (onComplete h (optional_conversation_id d) s)
                    else Continue s)))"

definition process_line ::
  "'n platform \<Rightarrow> variant \<Rightarrow> handlers \<Rightarrow> string \<Rightarrow> 'n stream \<Rightarrow> 'n outcome" where
  "process_line P v h line s =
     (let trimmedLine = trim line
      in if trimmedLine = []
         then (if currentEvent s = Some ''done''
               then Return (onComplete h Undefined s)
               else Continue (s\<lparr>currentEvent := None\<rparr>))
         else if startsWith trimmedLine ''event: ''
         then Continue (s\<lparr>currentEvent := Some (trim (slice 7 trimmedLine))\<rparr>)
         else if startsWith trimmedLine ''data: ''
         then (let dataStr = trim (slice 6 trimmedLine)
               in if dataStr \<noteq> []
                  then (if currentEvent s = Some ''token''
                        then Continue (append_visual dataStr s)
                        else if currentEvent s = Some ''done''
                        then Return (done_event P h dataStr s)
                        else legacy_event P v h dataStr s)
                  else Continue s)
         else Continue s)"

fun process_lines ::
  "'n platform \<Rightarrow> variant \<Rightarrow> handlers \<Rightarrow> string list \<Rightarrow> 'n stream \<Rightarrow> 'n outcome" where
  "process_lines P v h [] s = Continue s"
| "process_lines P v h (l # ls) s =
     (case process_line P v h l s of
        Return s' \<Rightarrow> Return s'
      | Continue s' \<Rightarrow> process_lines P v h ls s')"

subsection \<open>The line reassembler\<close>

text \<open>\<open>buffer += text; const lines = buffer.split('\n'); buffer = lines.pop() || ''\<close>:
  the lines to process and the new buffer.\<close>

definition reassemble :: "string \<Rightarrow> string \<Rightarrow> string list \<times> string" where
  "reassemble buf text =
     (let lines = split LF (buf @ text) in (butlast lines, last lines))"

subsection \<open>The steps of the asynchronous function\<close>

text \<open>The head of \<open>while (!aborted) { ... await reader.read() ... }\<close>.\<close>

definition loop_head :: "'n stream \<Rightarrow> 'n stream" where
  "loop_head s = (if aborted s then s\<lparr>phase := Finished\<rparr> else s\<lparr>phase := AwaitRead\<rparr>)"

definition session_expired :: string where
  "session_expired =
     ''Sesi'' @ [CHR 0xF3] @ ''n expirada. Por favor, inicia sesi'' @ [CHR 0xF3] @
     ''n nuevamente.''"

definition no_body :: string where
  "no_body = ''No se recibi'' @ [CHR 0xF3] @ '' respuesta del servidor''"

definition not_authenticated :: string where
  "not_authenticated = ''No autenticado. Por favor, inicia sesi'' @ [CHR 0xF3] @ ''n.''"

text \<open>\<open>fetch\<close> has fulfilled. In \<open>streamChat\<close> it is \<open>authenticatedFetch\<close> that awaits it and
  that, on status 401, removes the token and throws.\<close>

definition on_response :: "variant \<Rightarrow> handlers \<Rightarrow> response \<Rightarrow> 'n stream \<Rightarrow> 'n stream" where
  "on_response v h r s =
     (if v = Authenticated \<and> status r = 401
      then catch_block h (ErrorInstance session_expired) (removeToken s)
      else if \<not> ok r then s\<lparr>phase := AwaitJson r\<rparr>
      else if \<not> body_present r then catch_block h (ErrorInstance no_body) s
      else loop_head (s\<lparr>buffer := [], currentEvent := None\<rparr>))"

text \<open>\<open>const errorData = await response.json().catch(() => ({}));
  throw new Error(errorData.detail || `Error ${response.status}: ${response.statusText}`)\<close>:
  what is thrown, the \<open>Error\<close> made or the \<open>TypeError\<close> met on the way.\<close>

definition error_of_response :: "'n platform \<Rightarrow> response \<Rightarrow> 'n json option \<Rightarrow> thrown" where
  "error_of_response P r j =
     (let errorData = (case j of None \<Rightarrow> JObj [] | Some d \<Rightarrow> d)
      in case Get errorData ''detail'' of
           None \<Rightarrow> ErrorInstance (TypeError_null P ''detail'')
         | Some detail \<Rightarrow>
             (case detail of
                Val d \<Rightarrow>
                  if ToBoolean P detail
                  then (case ToString P d of
                          None \<Rightarrow> ErrorInstance (TypeError_primitive P d)
                        | Some message \<Rightarrow> ErrorInstance message)
                  else ErrorInstance (''Error '' @ decimal (status r) @ '': '' @ statusText r)
              | Undefined \<Rightarrow>
                  ErrorInstance (''Error '' @ decimal (status r) @ '': '' @ statusText r)))"

text \<open>\<open>reader.read()\<close> has fulfilled with a chunk.\<close>

definition on_chunk ::
  "'n platform \<Rightarrow> variant \<Rightarrow> handlers \<Rightarrow> string \<Rightarrow> 'n stream \<Rightarrow> 'n stream" where
  "on_chunk P v h text s =
     (case reassemble (buffer s) text of
        (lines, rest) \<Rightarrow>
          (case process_lines P v h lines (s\<lparr>buffer := rest\<rparr>) of
             Return s' \<Rightarrow> s'\<lparr>phase := Finished\<rparr>
           | Continue s' \<Rightarrow> loop_head s'))"

text \<open>One event. An event that the stream is not waiting for leaves it as it is.\<close>

fun step ::
  "'n platform \<Rightarrow> variant \<Rightarrow> handlers \<Rightarrow> 'n event \<Rightarrow> 'n stream \<Rightarrow> 'n stream" where
  "step P v h (FetchFulfilled r) s =
     (if phase s = AwaitFetch then on_response v h r s else s)"
| "step P v h (FetchRejected e) s =
     (if phase s = AwaitFetch then catch_block h e s else s)"
| "step P v h (JsonSettled j) s =
     (case phase s of
        AwaitJson r \<Rightarrow> catch_block h (error_of_response P r j) s
      | _ \<Rightarrow> s)"
| "step P v h (ReadChunk text) s =
     (if phase s = AwaitRead then on_chunk P v h text s else s)"
| "step P v h ReadDone s =
     (if phase s = AwaitRead then (onComplete h Undefined s)\<lparr>phase := Finished\<rparr> else s)"
| "step P v h (ReadRejected e) s =
     (if phase s = AwaitRead then catch_block h e s else s)"
| "step P v h TimerFired s =
     (if 0 < timers s then flush (s\<lparr>timers := timers s - 1\<rparr>) else s)"
| "step P v h CancelCalled s = cancel s"

fun run ::
  "'n platform \<Rightarrow> variant \<Rightarrow> handlers \<Rightarrow> 'n event list \<Rightarrow> 'n stream \<Rightarrow> 'n stream" where
  "run P v h [] s = s"
| "run P v h (e # es) s = run P v h es (step P v h e s)"

subsection \<open>Starting a stream\<close>

text \<open>The variables as they are declared, before anything has run.\<close>

definition fresh :: "string option \<Rightarrow> 'n stream" where
  "fresh tok =
     \<lparr>visualBuffer = [], flushTimeout = False, aborted = False, buffer = [],
      currentEvent = None, phase = Finished, handle = NoOp, signal_aborted = False,
      timers = 0, auth_token = tok, requests = [], calls = []\<rparr>"

text \<open>The synchronous part of \<open>streamChat\<close>, given the stored token (what \<open>getToken\<close>
  returns, \<open>None\<close> for \<open>null\<close>): without a token
  \<open>onError\<close> is called and \<open>() => {}\<close> returned; otherwise the asynchronous function runs
  up to \<open>await fetch\<close> (in \<open>authenticatedFetch\<close>) and \<open>cancel\<close> is returned.\<close>

definition streamChat :: "handlers \<Rightarrow> string option \<Rightarrow> 'n stream" where
  "streamChat h tok =
     (if \<not> truthy_token tok
      then (fresh tok)\<lparr>calls := (if has_onError h then [OnError not_authenticated] else [])\<rparr>
      else (fresh tok)\<lparr>phase := AwaitFetch, handle := CancelFn,
                       requests := [Fetch ''/chat/stream'' tok]\<rparr>)"

text \<open>\<open>streamChatPublic\<close> sends the token when there is one.\<close>

definition streamChatPublic :: "handlers \<Rightarrow> string option \<Rightarrow> 'n stream" where
  "streamChatPublic h tok =
     (fresh tok)\<lparr>phase := AwaitFetch, handle := CancelFn,
                 requests := [Fetch ''/chat/stream/public''
                                (if truthy_token tok then tok else None)]\<rparr>"

definition start :: "variant \<Rightarrow> handlers \<Rightarrow> string option \<Rightarrow> 'n stream" where
  "start v h tok = (case v of Authenticated \<Rightarrow> streamChat h tok | Public \<Rightarrow> streamChatPublic h tok)"

subsection \<open>A reference platform\<close>

text \<open>
  A platform for closed examples: numbers are integers, and \<open>JSON.parse\<close> is a parser
  of the JSON grammar that agrees with the platform's on every document it accepts. It
  rejects what it cannot represent (fractions, exponents, integers beyond \<open>2^53\<close> and
  \<open>\u\<close> escapes), so the general statements below never use it: they hold for every
  platform.
\<close>

definition json_space :: "char \<Rightarrow> bool" where
  "json_space c \<longleftrightarrow> c = CHR 0x20 \<or> c = CHR 0x09 \<or> c = CHR 0x0A \<or> c = CHR 0x0D"

definition skip :: "string \<Rightarrow> string" where
  "skip cs = dropWhile json_space cs"

definition is_digit :: "char \<Rightarrow> bool" where
  "is_digit c \<longleftrightarrow> c \<in> set ''0123456789''"

definition digit_value :: "char \<Rightarrow> nat" where
  "digit_value c = of_char c - 48"

fun parse_digits :: "nat \<Rightarrow> string \<Rightarrow> nat \<times> string" where
  "parse_digits acc [] = (acc, [])"
| "parse_digits acc (c # cs) =
     (if is_digit c then parse_digits (10 * acc + digit_value c) cs else (acc, c # cs))"

text \<open>\<open>0\<close>, or digits that do not start with \<open>0\<close>.\<close>

definition parse_nat :: "string \<Rightarrow> (nat \<times> string) option" where
  "parse_nat cs =
     (case cs of
        [] \<Rightarrow> None
      | c # r \<Rightarrow>
          if c = CHR ''0'' then Some (0, r)
          else if is_digit c then Some (parse_digits 0 cs)
          else None)"

definition parse_number :: "string \<Rightarrow> (int \<times> string) option" where
  "parse_number cs =
     (case (if take 1 cs = ''-'' then map_option (\<lambda>(n, r). (- int n, r)) (parse_nat (drop 1 cs))
            else map_option (\<lambda>(n, r). (int n, r)) (parse_nat cs)) of
        None \<Rightarrow> None
      | Some (i, r) \<Rightarrow>
          if \<bar>i\<bar> > 9007199254740992 \<or> take 1 r \<in> {''.'', ''e'', ''E''} then None
          else Some (i, r))"

definition unescape :: "char \<Rightarrow> char option" where
  "unescape e =
     (if e = CHR 0x22 \<or> e = CHR 0x5C \<or> e = CHR ''/'' then Some e
      else if e = CHR ''b'' then Some (CHR 0x08)
      else if e = CHR ''f'' then Some (CHR 0x0C)
      else if e = CHR ''n'' then Some (CHR 0x0A)
      else if e = CHR ''r'' then Some (CHR 0x0D)
      else if e = CHR ''t'' then Some (CHR 0x09)
      else None)"

text \<open>The characters of a string after its opening quote, up to the closing one.\<close>

fun parse_chars :: "string \<Rightarrow> string \<Rightarrow> (string \<times> string) option" where
  "parse_chars acc [] = None"
| "parse_chars acc [c] = (if c = CHR 0x22 then Some (rev acc, []) else None)"
| "parse_chars acc (c # e # cs) =
     (if c = CHR 0x22 then Some (rev acc, e # cs)
      else if c = CHR 0x5C
      then (case unescape e of None \<Rightarrow> None | Some x \<Rightarrow> parse_chars (x # acc) cs)
      else if (of_char c :: nat) < 32 then None
      else parse_chars (c # acc) (e # cs))"

text \<open>The first argument bounds the number of nested calls.\<close>

fun parse_value :: "nat \<Rightarrow> string \<Rightarrow> (int json \<times> string) option"
  and parse_elements :: "nat \<Rightarrow> int json list \<Rightarrow> string \<Rightarrow> (int json \<times> string) option"
  and parse_members ::
    "nat \<Rightarrow> (string \<times> int json) list \<Rightarrow> string \<Rightarrow> (int json \<times> string) option" where
  "parse_value 0 cs = None"
| "parse_value (Suc f) cs =
     (case skip cs of
        [] \<Rightarrow> None
      | c # r \<Rightarrow>
          if c = CHR ''{''
          then (if take 1 (skip r) = ''}'' then Some (JObj [], drop 1 (skip r))
                else parse_members f [] r)
          else if c = CHR ''[''
          then (if take 1 (skip r) = '']'' then Some (JArr [], drop 1 (skip r))
                else parse_elements f [] r)
          else if c = CHR 0x22
          then map_option (\<lambda>(x, r'). (JStr x, r')) (parse_chars [] r)
          else if startsWith (c # r) ''true'' then Some (JBool True, drop 4 (c # r))
          else if startsWith (c # r) ''false'' then Some (JBool False, drop 5 (c # r))
          else if startsWith (c # r) ''null'' then Some (JNull, drop 4 (c # r))
          else map_option (\<lambda>(i, r'). (JNum i, r')) (parse_number (c # r)))"
| "parse_elements 0 acc cs = None"
| "parse_elements (Suc f) acc cs =
     (case parse_value f cs of
        None \<Rightarrow> None
      | Some (x, r) \<Rightarrow>
          if take 1 (skip r) = '','' then parse_elements f (x # acc) (drop 1 (skip r))
          else if take 1 (skip r) = '']'' then Some (JArr (rev (x # acc)), drop 1 (skip r))
          else None)"
| "parse_members 0 acc cs = None"
| "parse_members (Suc f) acc cs =
     (if take 1 (skip cs) \<noteq> [CHR 0x22] then None
      else case parse_chars [] (drop 1 (skip cs)) of
             None \<Rightarrow> None
           | Some (k, r1) \<Rightarrow>
               if take 1 (skip r1) \<noteq> '':'' then None
               else (case parse_value f (drop 1 (skip r1)) of
                       None \<Rightarrow> None
                     | Some (x, r2) \<Rightarrow>
                         if take 1 (skip r2) = '',''
                         then parse_members f ((k, x) # acc) (drop 1 (skip r2))
                         else if take 1 (skip r2) = ''}''
                         then Some (JObj (rev ((k, x) # acc)), drop 1 (skip r2))
                         else None))"

definition parse_document :: "string \<Rightarrow> int json option" where
  "parse_document cs =
     (case parse_value (2 * length cs + 1) cs of
        None \<Rightarrow> None
      | Some (x, r) \<Rightarrow> if skip r = [] then Some x else None)"

definition print_int :: "int \<Rightarrow> string" where
  "print_int i = (if i < 0 then ''-'' else []) @ decimal (nat \<bar>i\<bar>)"

definition reference :: "int platform" where
  "reference =
     \<lparr>JSON_parse = parse_document,
      Number_ToBoolean = (\<lambda>i. i \<noteq> 0),
      Number_ToString = print_int,
      TypeError_null =
        (\<lambda>name. ''Cannot read properties of null (reading '' @ [CHR 0x27] @ name @
                  [CHR 0x27] @ '')''),
      TypeError_primitive = (\<lambda>x. ''Cannot convert object to primitive value'')\<rparr>"

subsection \<open>What is observed of a stream\<close>

fun is_terminal :: "'n callback \<Rightarrow> bool" where
  "is_terminal (OnToken x) = False"
| "is_terminal (OnError m) = True"
| "is_terminal (OnComplete c) = True"

fun is_OnError :: "'n callback \<Rightarrow> bool" where
  "is_OnError (OnError m) = True"
| "is_OnError c = False"

fun is_OnComplete :: "'n callback \<Rightarrow> bool" where
  "is_OnComplete (OnComplete c) = True"
| "is_OnComplete c = False"

text \<open>The text that the token callbacks deliver, concatenated as the views do
  (\<open>respuestaCompleta += token\<close>); a token without a string conversion counts as nothing.\<close>

definition text_of :: "'n platform \<Rightarrow> 'n json \<Rightarrow> string" where
  "text_of P x = (case ToString P x of None \<Rightarrow> [] | Some text \<Rightarrow> text)"

fun token_of :: "'n platform \<Rightarrow> 'n callback \<Rightarrow> string" where
  "token_of P (OnToken x) = text_of P x"
| "token_of P c = []"

definition token_text :: "'n platform \<Rightarrow> 'n callback list \<Rightarrow> string" where
  "token_text P cs = concat (map (token_of P) cs)"

fun is_read :: "'n event \<Rightarrow> bool" where
  "is_read (ReadChunk text) = True"
| "is_read ReadDone = True"
| "is_read e = False"

text \<open>From one state to a later one, no callback was invoked except, at most, the flush
  that was scheduled in the first.\<close>

definition at_most_flush :: "'n stream \<Rightarrow> 'n stream \<Rightarrow> bool" where
  "at_most_flush s s' \<longleftrightarrow>
     calls s' = calls s \<or>
     (flushTimeout s \<and> calls s' = calls s @ [OnToken (JStr (visualBuffer s))])"

text \<open>\<open>data.conversation_id\<close> as the \<open>done\<close> branch reads it, the \<open>TypeError\<close> on \<open>null\<close>
  caught.\<close>

definition conversation_id :: "'n json \<Rightarrow> 'n jsval" where
  "conversation_id d = (case Get d ''conversation_id'' of None \<Rightarrow> Undefined | Some c \<Rightarrow> c)"

text \<open>The lines that the reassembler hands on over a sequence of fragments, and the
  buffer it is left with.\<close>

fun reassemble_all :: "string \<Rightarrow> string list \<Rightarrow> string list \<times> string" where
  "reassemble_all buf [] = ([], buf)"
| "reassemble_all buf (t # ts) =
     (case reassemble buf t of
        (ls, b) \<Rightarrow> (case reassemble_all b ts of (ls', b') \<Rightarrow> (ls @ ls', b')))"

subsection \<open>The inputs of the examples\<close>

definition unlines :: "string list \<Rightarrow> string" where
  "unlines ls = concat (map (\<lambda>l. l @ [LF]) ls)"

definition both :: handlers where
  "both = \<lparr>has_onError = True, has_onComplete = True\<rparr>"

definition response_200 :: response where
  "response_200 = \<lparr>status = 200, statusText = ''OK'', body_present = True\<rparr>"

definition response_500 :: response where
  "response_500 = \<lparr>status = 500, statusText = ''Internal Server Error'', body_present = True\<rparr>"

definition response_401 :: response where
  "response_401 = \<lparr>status = 401, statusText = ''Unauthorized'', body_present = True\<rparr>"

definition payload_42 :: string where
  "payload_42 = ''{\"conversation_id\": 42}''"

definition payload_legacy_token :: string where
  "payload_legacy_token = ''{\"event\":\"token\",\"data\":\"Hi\"}''"

definition payload_legacy_done :: string where
  "payload_legacy_done = ''{\"event\":\"done\",\"data\":{}}''"

definition wire_named :: string where
  "wire_named =
     unlines [''event: token'', ''data: Hello'', [],
              ''event: token'', ''data:  world'', [],
              ''event: done'', ''data: '' @ payload_42, []]"

definition wire_legacy :: string where
  "wire_legacy =
     unlines [''data: '' @ payload_legacy_token, [],
              ''data: '' @ payload_legacy_done, []]"


subsection \<open>Invariants of the line loop and of a stream\<close>

fun state_of :: "'n outcome \<Rightarrow> 'n stream" where
  "state_of (Continue s) = s"
| "state_of (Return s) = s"

text \<open>What a line never touches.\<close>

definition frame :: "'n stream \<Rightarrow> 'n stream \<Rightarrow> bool" where
  "frame s s' \<longleftrightarrow>
     phase s' = phase s \<and> aborted s' = aborted s \<and> handle s' = handle s \<and>
     signal_aborted s' = signal_aborted s \<and> auth_token s' = auth_token s \<and>
     requests s' = requests s \<and> buffer s' = buffer s"

text \<open>At most one flush is scheduled, \<open>flushTimeout\<close> says whether one is, and text
  waits in \<open>visualBuffer\<close> only while one is.\<close>

definition timer_ok :: "'n stream \<Rightarrow> bool" where
  "timer_ok s \<longleftrightarrow>
     timers s = (if flushTimeout s then 1 else 0) \<and> (visualBuffer s \<noteq> [] \<longrightarrow> flushTimeout s)"

definition terminals :: "'n callback list \<Rightarrow> 'n callback list" where
  "terminals cs = filter is_terminal cs"

text \<open>What a line may do: it goes on without a terminal callback, or it returns after
  at most one \<open>onComplete\<close>.\<close>

fun line_rel :: "handlers \<Rightarrow> 'n stream \<Rightarrow> 'n outcome \<Rightarrow> bool" where
  "line_rel h s (Continue s') \<longleftrightarrow>
     frame s s' \<and> (timer_ok s \<longrightarrow> timer_ok s') \<and> terminals (calls s') = terminals (calls s)"
| "line_rel h s (Return s') \<longleftrightarrow>
     frame s s' \<and> (timer_ok s \<longrightarrow> timer_ok s') \<and>
     (\<exists>c. terminals (calls s') =
          terminals (calls s) @ (if has_onComplete h then [OnComplete c] else []))"

text \<open>No terminal callback before the asynchronous function has ended, at most one
  after, and one if it ended without a cancellation.\<close>

definition inv1 :: "handlers \<Rightarrow> 'n stream \<Rightarrow> bool" where
  "inv1 h s \<longleftrightarrow>
     timer_ok s \<and> length (terminals (calls s)) \<le> 1 \<and>
     (phase s \<noteq> Finished \<longrightarrow> terminals (calls s) = []) \<and>
     (phase s = Finished \<and> \<not> aborted s \<and> has_onError h \<and> has_onComplete h \<longrightarrow>
        terminals (calls s) \<noteq> [])"

text \<open>After a cancellation: the flag is set, or the stream had already ended.\<close>

definition silenced :: "'n stream \<Rightarrow> bool" where
  "silenced s \<longleftrightarrow> timer_ok s \<and> (aborted s \<or> phase s = Finished)"

text \<open>Nothing was invoked and nothing buffered, or the scheduled flush has run.\<close>

definition quiet :: "'n stream \<Rightarrow> 'n stream \<Rightarrow> bool" where
  "quiet s s' \<longleftrightarrow>
     (calls s' = calls s \<and> visualBuffer s' = visualBuffer s \<and>
      (flushTimeout s' \<longrightarrow> flushTimeout s)) \<or>
     (flushTimeout s \<and> calls s' = calls s @ [OnToken (JStr (visualBuffer s))] \<and>
      \<not> flushTimeout s')"

subsection \<open>Lines as actions\<close>

text \<open>
  What the body of the loop does with a line depends on the line and on the current
  event only. The definitions below name that: the action of a line, the actions of a
  list of lines up to the first completion, and what a sequence of actions delivers.
  They are not in the source; \<open>process_line_classify\<close> proves that the loop body is
  \<open>perform\<close> of \<open>classify\<close>.
\<close>

datatype 'n action =
    Buffer string
  | Direct "'n json"
  | Complete "'n jsval"
  | Event "string option"
  | Ignore

definition classify_legacy ::
  "'n platform \<Rightarrow> variant \<Rightarrow> string option \<Rightarrow> string \<Rightarrow> 'n action" where
  "classify_legacy P v ce dataStr =
     (case JSON_parse P dataStr of
        None \<Rightarrow> if ce = None \<or> ce = Some [] then Buffer dataStr else Ignore
      | Some data \<Rightarrow>
          (case Get data ''event'' of
             None \<Rightarrow> if ce = None \<or> ce = Some [] then Buffer dataStr else Ignore
           | Some ev \<Rightarrow>
               (case Get data ''data'' of
                  None \<Rightarrow> if ce = None \<or> ce = Some [] then Buffer dataStr else Ignore
                | Some d \<Rightarrow>
                    if ev = Val (JStr ''token'') \<and> ToBoolean P d
                    then (case d of
                            Undefined \<Rightarrow> Ignore
                          | Val x \<Rightarrow>
                              (case v of
                                 Authenticated \<Rightarrow> Direct x
                               | Public \<Rightarrow>
                                   (case ToString P x of
                                      None \<Rightarrow>
                                        if ce = None \<or> ce = Some [] then Buffer dataStr
                                        else Ignore
                                    | Some text \<Rightarrow> Buffer text)))
                    else if ev = Val (JStr ''done'')
                    then Complete (optional_conversation_id d)
                    else Ignore)))"

definition classify ::
  "'n platform \<Rightarrow> variant \<Rightarrow> string option \<Rightarrow> string \<Rightarrow> 'n action" where
  "classify P v ce line =
     (let trimmedLine = trim line
      in if trimmedLine = []
         then (if ce = Some ''done'' then Complete Undefined else Event None)
         else if startsWith trimmedLine ''event: ''
         then Event (Some (trim (slice 7 trimmedLine)))
         else if startsWith trimmedLine ''data: ''
         then (let dataStr = trim (slice 6 trimmedLine)
               in if dataStr \<noteq> []
                  then (if ce = Some ''token'' then Buffer dataStr
                        else if ce = Some ''done''
                        then Complete (case JSON_parse P dataStr of
                                         None \<Rightarrow> Undefined
                                       | Some d \<Rightarrow> conversation_id d)
                        else classify_legacy P v ce dataStr)
                  else Ignore)
         else Ignore)"

fun perform :: "handlers \<Rightarrow> 'n action \<Rightarrow> 'n stream \<Rightarrow> 'n outcome" where
  "perform h (Buffer t) s = Continue (append_visual t s)"
| "perform h (Direct x) s = Continue (s\<lparr>calls := calls s @ [OnToken x]\<rparr>)"
| "perform h (Complete c) s = Return (onComplete h c s)"
| "perform h (Event e) s = Continue (s\<lparr>currentEvent := e\<rparr>)"
| "perform h Ignore s = Continue s"

fun is_Complete :: "'n action \<Rightarrow> bool" where
  "is_Complete (Complete c) = True"
| "is_Complete a = False"

fun is_Buffer :: "'n action \<Rightarrow> bool" where
  "is_Buffer (Buffer t) = True"
| "is_Buffer a = False"

fun is_Direct :: "'n action \<Rightarrow> bool" where
  "is_Direct (Direct x) = True"
| "is_Direct a = False"

text \<open>The current event after an action.\<close>

fun event_after :: "string option \<Rightarrow> 'n action \<Rightarrow> string option" where
  "event_after ce (Event e) = e"
| "event_after ce a = ce"

text \<open>The actions of a list of lines, up to and with the first completion, and the
  current event after them.\<close>

fun line_actions :: "'n platform \<Rightarrow> variant \<Rightarrow> string option \<Rightarrow> string list \<Rightarrow> 'n action list" where
  "line_actions P v ce [] = []"
| "line_actions P v ce (l # ls) =
     (if is_Complete (classify P v ce l) then [classify P v ce l]
      else classify P v ce l # line_actions P v (event_after ce (classify P v ce l)) ls)"

fun final_event :: "'n platform \<Rightarrow> variant \<Rightarrow> string option \<Rightarrow> string list \<Rightarrow> string option" where
  "final_event P v ce [] = ce"
| "final_event P v ce (l # ls) =
     (if is_Complete (classify P v ce l) then ce
      else final_event P v (event_after ce (classify P v ce l)) ls)"

fun action_text :: "'n platform \<Rightarrow> 'n action \<Rightarrow> string" where
  "action_text P (Buffer t) = t"
| "action_text P (Direct x) = text_of P x"
| "action_text P a = []"

fun action_terminal :: "'n action \<Rightarrow> 'n callback list" where
  "action_terminal (Complete c) = [OnComplete c]"
| "action_terminal a = []"

definition completed :: "'n action list \<Rightarrow> bool" where
  "completed acts \<longleftrightarrow> list_ex is_Complete acts"

text \<open>No token bypasses the coalescing buffer while text may wait in it.\<close>

fun ordered :: "'n action list \<Rightarrow> bool" where
  "ordered [] = True"
| "ordered (a # as) = ((is_Buffer a \<longrightarrow> \<not> list_ex is_Direct as) \<and> ordered as)"

text \<open>A stream has delivered, or holds in the coalescing buffer, the text of the
  actions, and has invoked their terminal callback.\<close>

definition sim :: "'n platform \<Rightarrow> handlers \<Rightarrow> 'n action list \<Rightarrow> 'n stream \<Rightarrow> bool" where
  "sim P h acts s \<longleftrightarrow>
     token_text P (calls s) @ visualBuffer s = concat (map (action_text P) acts) \<and>
     terminals (calls s) = (if has_onComplete h then concat (map action_terminal acts) else []) \<and>
     timer_ok s \<and> (\<not> list_ex is_Buffer acts \<longrightarrow> visualBuffer s = [])"

text \<open>A stream that has read the text \<open>t\<close> of a successful response, not cancelled.\<close>

definition pumped :: "'n platform \<Rightarrow> variant \<Rightarrow> handlers \<Rightarrow> string \<Rightarrow> 'n stream \<Rightarrow> bool" where
  "pumped P v h t s \<longleftrightarrow>
     sim P h (line_actions P v None (butlast (split LF t))) s \<and> \<not> aborted s \<and>
     (if completed (line_actions P v None (butlast (split LF t))) then phase s = Finished
      else phase s = AwaitRead \<and> buffer s = last (split LF t) \<and>
           currentEvent s = final_event P v None (butlast (split LF t)))"

section \<open>Properties\<close>

subsection \<open>The line loop\<close>

lemma text_of_JStr [simp]: "text_of P (JStr t) = t"
  by (simp add: text_of_def)

lemma line_rel_refl [simp]: "line_rel h s (Continue s)"
  by (simp add: frame_def)

lemma line_rel_append_visual [simp]: "line_rel h s (Continue (append_visual t s))"
  by (simp add: frame_def timer_ok_def append_visual_def Let_def)

lemma line_rel_currentEvent [simp]: "line_rel h s (Continue (s\<lparr>currentEvent := x\<rparr>))"
  by (simp add: frame_def timer_ok_def)

lemma line_rel_OnToken [simp]: "line_rel h s (Continue (s\<lparr>calls := calls s @ [OnToken x]\<rparr>))"
  by (simp add: frame_def timer_ok_def terminals_def)

lemma line_rel_onComplete [simp]: "line_rel h s (Return (onComplete h c s))"
  by (auto simp add: frame_def timer_ok_def onComplete_def terminals_def)

lemma line_rel_Return_same: "\<not> has_onComplete h \<Longrightarrow> line_rel h s (Return s)"
  by (simp add: frame_def)

declare line_rel.simps [simp del]

lemma line_rel_raw_fallback [simp]: "line_rel h s (Continue (raw_fallback d s))"
  by (simp add: raw_fallback_def)

lemma line_rel_done_event [simp]: "line_rel h s (Return (done_event P h d s))"
  by (simp add: done_event_def line_rel_Return_same split: option.splits)

lemma line_rel_legacy_event [simp]: "line_rel h s (legacy_event P v h d s)"
  by (simp add: legacy_event_def split: option.splits jsval.splits variant.splits)

lemma line_rel_process_line [simp]: "line_rel h s (process_line P v h l s)"
  by (simp add: process_line_def Let_def)

lemma line_rel_trans:
  "line_rel h s (Continue s') \<Longrightarrow> line_rel h s' r \<Longrightarrow> line_rel h s r"
  by (cases r) (auto simp add: frame_def line_rel.simps)

lemma line_rel_process_lines [simp]: "line_rel h s (process_lines P v h ls s)"
proof (induction ls arbitrary: s)
  case Nil
  show ?case by simp
next
  case (Cons l ls)
  show ?case
  proof (cases "process_line P v h l s")
    case (Continue s')
    have "line_rel h s (Continue s')"
      using line_rel_process_line [of h s P v l] Continue by simp
    then have "line_rel h s (process_lines P v h ls s')"
      using Cons.IH [of s'] by (rule line_rel_trans)
    then show ?thesis using Continue by simp
  next
    case (Return s')
    then show ?thesis using line_rel_process_line [of h s P v l] by simp
  qed
qed

lemma timer_ok_updates [simp]:
  "timer_ok (s\<lparr>phase := p\<rparr>) = timer_ok s"
  "timer_ok (s\<lparr>buffer := b\<rparr>) = timer_ok s"
  "timer_ok (s\<lparr>currentEvent := c\<rparr>) = timer_ok s"
  "timer_ok (s\<lparr>calls := cs\<rparr>) = timer_ok s"
  "timer_ok (s\<lparr>auth_token := a\<rparr>) = timer_ok s"
  "timer_ok (s\<lparr>aborted := x\<rparr>) = timer_ok s"
  "timer_ok (s\<lparr>signal_aborted := x\<rparr>) = timer_ok s"
  by (simp_all add: timer_ok_def)

lemma timer_ok_ops [simp]:
  "timer_ok (catch_block h e s) = timer_ok s"
  "timer_ok (onComplete h c s) = timer_ok s"
  "timer_ok (cancel s) = timer_ok s"
  "timer_ok (removeToken s) = timer_ok s"
  "timer_ok (loop_head s) = timer_ok s"
  by (simp_all add: catch_block_def onComplete_def cancel_def removeToken_def loop_head_def
        split: handle.splits)

lemma timer_ok_flush:
  "timer_ok s \<Longrightarrow> 0 < timers s \<Longrightarrow> timer_ok (flush (s\<lparr>timers := timers s - Suc 0\<rparr>))"
  by (auto simp add: timer_ok_def flush_def split: if_splits)

lemma calls_ops [simp]:
  "calls (cancel s) = calls s"
  "calls (removeToken s) = calls s"
  "calls (loop_head s) = calls s"
  "calls (onComplete h c s) = (if has_onComplete h then calls s @ [OnComplete c] else calls s)"
  "calls (catch_block h e s) =
     (if \<not> aborted s \<and> has_onError h
      then calls s @ [OnError (case e of ErrorInstance m \<Rightarrow> m
                                | NotAnError \<Rightarrow> ''Error desconocido al recibir el stream'')]
      else calls s)"
  by (simp_all add: catch_block_def onComplete_def cancel_def removeToken_def loop_head_def
        split: handle.splits)

lemma phase_ops [simp]:
  "phase (cancel s) = phase s"
  "phase (removeToken s) = phase s"
  "phase (onComplete h c s) = phase s"
  "phase (catch_block h e s) = Finished"
  "phase (flush s) = phase s"
  "phase (loop_head s) = (if aborted s then Finished else AwaitRead)"
  by (simp_all add: catch_block_def onComplete_def cancel_def removeToken_def loop_head_def
        flush_def split: handle.splits)

lemma aborted_ops [simp]:
  "aborted (removeToken s) = aborted s"
  "aborted (onComplete h c s) = aborted s"
  "aborted (catch_block h e s) = aborted s"
  "aborted (flush s) = aborted s"
  "aborted (loop_head s) = aborted s"
  by (simp_all add: catch_block_def onComplete_def removeToken_def loop_head_def flush_def)

lemma terminals_simps [simp]:
  "terminals [] = []"
  "terminals (cs @ ds) = terminals cs @ terminals ds"
  "terminals (c # cs) = (if is_terminal c then c # terminals cs else terminals cs)"
  by (simp_all add: terminals_def)

lemma terminals_flush [simp]: "terminals (calls (flush s)) = terminals (calls s)"
  by (simp add: flush_def)

lemma inv1_start: "inv1 h (start v h tok)"
  by (simp add: inv1_def start_def streamChat_def streamChatPublic_def fresh_def
        timer_ok_def split: variant.splits)

lemma inv1_catch_block:
  "inv1 h s \<Longrightarrow> phase s \<noteq> Finished \<Longrightarrow> inv1 h (catch_block h e s)"
  by (simp add: inv1_def)

lemma inv1_on_response:
  "inv1 h s \<Longrightarrow> phase s \<noteq> Finished \<Longrightarrow> inv1 h (on_response v h r s)"
  by (simp add: on_response_def inv1_def)

lemma inv1_on_chunk:
  assumes "inv1 h s" and "phase s = AwaitRead"
  shows "inv1 h (on_chunk P v h text s)"
proof -
  obtain ls b where r: "reassemble (buffer s) text = (ls, b)" by (cases "reassemble (buffer s) text")
  let ?s0 = "s\<lparr>buffer := b\<rparr>"
  have i0: "inv1 h ?s0" "phase ?s0 = AwaitRead"
    using assms by (simp_all add: inv1_def)
  have rel: "line_rel h ?s0 (process_lines P v h ls ?s0)" by simp
  show ?thesis
  proof (cases "process_lines P v h ls ?s0")
    case (Continue s')
    then show ?thesis using rel i0 r
      by (auto simp add: on_chunk_def inv1_def frame_def line_rel.simps)
  next
    case (Return s')
    then show ?thesis using rel i0 r
      by (auto simp add: on_chunk_def inv1_def frame_def line_rel.simps)
  qed
qed

lemma inv1_step: "inv1 h s \<Longrightarrow> inv1 h (step P v h e s)"
proof (cases e)
  case (FetchFulfilled r)
  assume "inv1 h s" then show ?thesis using FetchFulfilled by (simp add: inv1_on_response)
next
  case (FetchRejected x)
  assume "inv1 h s" then show ?thesis using FetchRejected by (simp add: inv1_catch_block)
next
  case (JsonSettled j)
  assume "inv1 h s" then show ?thesis using JsonSettled
    by (cases "phase s") (simp_all add: inv1_catch_block)
next
  case (ReadChunk t)
  assume "inv1 h s" then show ?thesis using ReadChunk by (simp add: inv1_on_chunk)
next
  case ReadDone
  assume "inv1 h s" then show ?thesis using ReadDone by (simp add: inv1_def)
next
  case (ReadRejected x)
  assume "inv1 h s" then show ?thesis using ReadRejected by (simp add: inv1_catch_block)
next
  case TimerFired
  assume "inv1 h s" then show ?thesis using TimerFired
    by (simp add: inv1_def timer_ok_flush)
next
  case CancelCalled
  assume "inv1 h s" then show ?thesis using CancelCalled
    by (simp add: inv1_def) (simp add: cancel_def split: handle.splits)
qed

lemma inv1_run: "inv1 h s \<Longrightarrow> inv1 h (run P v h evs s)"
  by (induction evs arbitrary: s) (simp_all add: inv1_step)

lemma filter_terminal_bounds:
  "length (filter is_OnError cs) \<le> length (terminals cs) \<and>
   length (filter is_OnComplete cs) \<le> length (terminals cs)"
proof (induction cs)
  case Nil
  show ?case by simp
next
  case (Cons c cs)
  then show ?case by (cases c) simp_all
qed

lemma step_aborted: "CancelCalled \<noteq> e \<Longrightarrow> aborted (step P v h e s) = aborted s"
proof (cases e)
  case (ReadChunk t)
  obtain ls b where r: "reassemble (buffer s) t = (ls, b)" by (cases "reassemble (buffer s) t")
  have "line_rel h (s\<lparr>buffer := b\<rparr>) (process_lines P v h ls (s\<lparr>buffer := b\<rparr>))" by simp
  then show ?thesis using ReadChunk r
    by (cases "process_lines P v h ls (s\<lparr>buffer := b\<rparr>)")
       (auto simp add: on_chunk_def frame_def line_rel.simps)
qed (auto simp add: on_response_def split: phase.splits)

lemma run_aborted: "CancelCalled \<notin> set evs \<Longrightarrow> aborted (run P v h evs s) = aborted s"
  by (induction evs arbitrary: s) (simp_all add: step_aborted)

subsection \<open>Splitting and the line reassembler\<close>

lemma split_not_Nil [simp]: "split sep s \<noteq> []"
  by (induction s) (auto split: list.splits)

lemma split_no_sep: "sep \<notin> set a \<Longrightarrow> split sep a = [a]"
  by (induction a) auto

lemma split_append_sep: "sep \<notin> set a \<Longrightarrow> split sep (a @ sep # b) = a # split sep b"
  by (induction a) auto

lemma split_unsplit:
  "concat (map (\<lambda>l. l @ [sep]) (butlast (split sep t))) @ last (split sep t) = t"
  by (induction t) (auto split: list.splits)

lemma split_pieces: "l \<in> set (split sep t) \<Longrightarrow> sep \<notin> set l"
  by (induction t arbitrary: l) (auto split: list.splits if_splits)

lemma split_append:
  "split sep (a @ b) = butlast (split sep a) @ split sep (last (split sep a) @ b)"
  by (induction a) (auto split: list.splits)

lemma reassemble_all_split:
  "LF \<notin> set buf \<Longrightarrow>
   reassemble_all buf frags =
     (butlast (split LF (buf @ concat frags)), last (split LF (buf @ concat frags)))"
proof (induction frags arbitrary: buf)
  case Nil
  then show ?case by (simp add: split_no_sep)
next
  case (Cons t ts)
  let ?b = "last (split LF (buf @ t))"
  have "?b \<in> set (split LF (buf @ t))" by simp
  then have nb: "LF \<notin> set ?b" by (rule split_pieces)
  have sp: "split LF ((buf @ t) @ concat ts) =
              butlast (split LF (buf @ t)) @ split LF (?b @ concat ts)"
    by (rule split_append)
  have "reassemble_all buf (t # ts) =
          (butlast (split LF (buf @ t)) @ butlast (split LF (?b @ concat ts)),
           last (split LF (?b @ concat ts)))"
    using Cons.IH [OF nb] by (simp add: reassemble_def Let_def)
  also have "\<dots> = (butlast (split LF ((buf @ t) @ concat ts)),
                    last (split LF ((buf @ t) @ concat ts)))"
    unfolding sp by (simp add: butlast_append)
  finally show ?case by simp
qed

text \<open>
  Claim C4. However a text is cut into decoded fragments, the lines that the reassembler
  hands on are exactly the newline-terminated lines of the whole text, in order: joined
  again, each with its newline, and followed by the retained buffer, they give the text
  back, and neither a line nor the buffer contains a newline. The buffer is the piece
  after the last newline; feeding more fragments only adds lines after those handed on.
\<close>

theorem line_reassembly:
  "(case reassemble_all [] frags of
      (ls, b) \<Rightarrow>
        concat (map (\<lambda>l. l @ [LF]) ls) @ b = concat frags \<and>
        LF \<notin> set (concat ls) \<and> LF \<notin> set b \<and>
        ls = butlast (split LF (concat frags)) \<and> b = last (split LF (concat frags))) \<and>
   fst (reassemble_all [] (frags @ later)) =
     fst (reassemble_all [] frags) @
     fst (reassemble_all (snd (reassemble_all [] frags)) later)"
proof -
  let ?t = "concat frags"
  have r: "reassemble_all [] frags = (butlast (split LF ?t), last (split LF ?t))"
    using reassemble_all_split [of "[]" frags] by simp
  have l: "last (split LF ?t) \<in> set (split LF ?t)" by simp
  then have nb: "LF \<notin> set (last (split LF ?t))" by (rule split_pieces)
  have nl: "LF \<notin> set (concat (butlast (split LF ?t)))"
    using split_pieces [of _ LF ?t] by (auto dest: in_set_butlastD)
  have later: "reassemble_all [] (frags @ later) =
                (butlast (split LF (?t @ concat later)), last (split LF (?t @ concat later)))"
    using reassemble_all_split [of "[]" "frags @ later"] by simp
  have rest: "reassemble_all (last (split LF ?t)) later =
                (butlast (split LF (last (split LF ?t) @ concat later)),
                 last (split LF (last (split LF ?t) @ concat later)))"
    using nb by (rule reassemble_all_split)
  have "butlast (split LF (?t @ concat later)) =
          butlast (split LF ?t) @ butlast (split LF (last (split LF ?t) @ concat later))"
    by (subst split_append) (simp add: butlast_append)
  then show ?thesis
    using r nb nl later rest by (simp add: split_unsplit)
qed

subsection \<open>What a step leaves alone\<close>

lemma on_chunk_fields:
  "aborted (on_chunk P v h t s) = aborted s \<and>
   handle (on_chunk P v h t s) = handle s \<and>
   signal_aborted (on_chunk P v h t s) = signal_aborted s \<and>
   auth_token (on_chunk P v h t s) = auth_token s \<and>
   requests (on_chunk P v h t s) = requests s"
proof -
  obtain ls b where r: "reassemble (buffer s) t = (ls, b)" by (cases "reassemble (buffer s) t")
  have "line_rel h (s\<lparr>buffer := b\<rparr>) (process_lines P v h ls (s\<lparr>buffer := b\<rparr>))" by simp
  then show ?thesis using r
    by (cases "process_lines P v h ls (s\<lparr>buffer := b\<rparr>)")
       (auto simp add: on_chunk_def loop_head_def frame_def line_rel.simps)
qed

lemma requests_ops [simp]:
  "requests (cancel s) = requests s"
  "requests (removeToken s) = requests s"
  "requests (onComplete h c s) = requests s"
  "requests (catch_block h e s) = requests s"
  "requests (flush s) = requests s"
  "requests (loop_head s) = requests s"
  by (simp_all add: catch_block_def onComplete_def cancel_def removeToken_def loop_head_def
        flush_def split: handle.splits)

lemma auth_token_ops [simp]:
  "auth_token (cancel s) = auth_token s"
  "auth_token (removeToken s) = None"
  "auth_token (onComplete h c s) = auth_token s"
  "auth_token (catch_block h e s) = auth_token s"
  "auth_token (flush s) = auth_token s"
  "auth_token (loop_head s) = auth_token s"
  by (simp_all add: catch_block_def onComplete_def cancel_def removeToken_def loop_head_def
        flush_def split: handle.splits)

lemma step_requests: "requests (step P v h e s) = requests s"
  by (cases e) (auto simp add: on_response_def on_chunk_fields split: phase.splits)

lemma run_requests: "requests (run P v h evs s) = requests s"
  by (induction evs arbitrary: s) (simp_all add: step_requests)

lemma step_Public_auth_token: "auth_token (step P Public h e s) = auth_token s"
  by (cases e) (auto simp add: on_response_def on_chunk_fields split: phase.splits)

lemma run_Public_auth_token: "auth_token (run P Public h evs s) = auth_token s"
  by (induction evs arbitrary: s) (simp_all add: step_Public_auth_token)

text \<open>Once the asynchronous function has ended, only the flush timer and \<open>cancel\<close>
  still do something.\<close>

lemma step_Finished:
  "phase s = Finished \<Longrightarrow>
   phase (step P v h e s) = Finished \<and> auth_token (step P v h e s) = auth_token s \<and>
   terminals (calls (step P v h e s)) = terminals (calls s)"
  by (cases e) simp_all

lemma run_Finished:
  "phase s = Finished \<Longrightarrow>
   phase (run P v h evs s) = Finished \<and> auth_token (run P v h evs s) = auth_token s \<and>
   terminals (calls (run P v h evs s)) = terminals (calls s)"
proof (induction evs arbitrary: s)
  case Nil
  then show ?case by simp
next
  case (Cons e evs)
  then show ?case using step_Finished [of s P v h e] by simp
qed

text \<open>
  Claim C1. For every stream started with \<open>streamChat\<close> or \<open>streamChatPublic\<close>, whatever
  the events that reach it: \<open>onError\<close> is invoked at most once, \<open>onComplete\<close> at most once,
  and at most one of the two; none while the asynchronous function is running; and when
  both callbacks were passed, the caller has not cancelled and the function has ended,
  exactly one of them was invoked. The function ends, with its callback, as soon as a
  pending operation fails or the data end: a rejected \<open>fetch\<close> or read gives \<open>onError\<close>
  with the error (unless the caller has cancelled), the settled body of an error response
  gives \<open>onError\<close>, the end of the data gives \<open>onComplete\<close>; a fulfilled \<open>fetch\<close> leads on.
  Once the function has ended, no terminal callback follows. \<open>onToken\<close> is not bounded.
\<close>

theorem one_terminal_callback:
  assumes "s = run P v h evs (start v h tok)"
  shows
  "length (filter is_OnError (calls s)) \<le> 1 \<and>
   length (filter is_OnComplete (calls s)) \<le> 1 \<and>
   length (filter is_terminal (calls s)) \<le> 1 \<and>
   (has_onError h \<and> has_onComplete h \<and> CancelCalled \<notin> set evs \<and> phase s = Finished
    \<longrightarrow> length (filter is_terminal (calls s)) = 1) \<and>
   (phase s \<noteq> Finished \<longrightarrow> filter is_terminal (calls s) = []) \<and>
   (phase s = AwaitFetch \<longrightarrow>
      phase (step P v h (FetchRejected e) s) = Finished \<and>
      filter is_terminal (calls (step P v h (FetchRejected e) s)) =
        (if \<not> aborted s \<and> has_onError h
         then [OnError (case e of ErrorInstance m \<Rightarrow> m
                                | NotAnError \<Rightarrow> ''Error desconocido al recibir el stream'')]
         else []) \<and>
      phase (step P v h (FetchFulfilled r) s) \<noteq> AwaitFetch) \<and>
   (phase s = AwaitRead \<longrightarrow>
      phase (step P v h (ReadRejected e) s) = Finished \<and>
      filter is_terminal (calls (step P v h (ReadRejected e) s)) =
        (if \<not> aborted s \<and> has_onError h
         then [OnError (case e of ErrorInstance m \<Rightarrow> m
                                | NotAnError \<Rightarrow> ''Error desconocido al recibir el stream'')]
         else []) \<and>
      phase (step P v h ReadDone s) = Finished \<and>
      filter is_terminal (calls (step P v h ReadDone s)) =
        (if has_onComplete h then [OnComplete Undefined] else [])) \<and>
   (phase s = AwaitJson r \<longrightarrow>
      phase (step P v h (JsonSettled j) s) = Finished \<and>
      filter is_terminal (calls (step P v h (JsonSettled j) s)) =
        (if \<not> aborted s \<and> has_onError h
         then [OnError (case error_of_response P r j of ErrorInstance m \<Rightarrow> m
                                | NotAnError \<Rightarrow> ''Error desconocido al recibir el stream'')]
         else [])) \<and>
   (phase s = Finished \<longrightarrow>
      phase (run P v h later s) = Finished \<and>
      filter is_terminal (calls (run P v h later s)) = filter is_terminal (calls s))"
proof -
  have i: "inv1 h s" unfolding assms by (rule inv1_run) (rule inv1_start)
  then have le: "length (terminals (calls s)) \<le> 1" by (simp add: inv1_def)
  have a0: "\<not> aborted (start v h tok :: 'a stream)"
    by (simp add: start_def streamChat_def streamChatPublic_def fresh_def split: variant.splits)
  have ex: "length (terminals (calls s)) = 1"
    if "has_onError h" "has_onComplete h" "CancelCalled \<notin> set evs" "phase s = Finished"
  proof -
    have "\<not> aborted s" unfolding assms using that(3) a0 by (simp add: run_aborted)
    then have "terminals (calls s) \<noteq> []" using i that by (simp add: inv1_def)
    then show ?thesis using le by (cases "terminals (calls s)") simp_all
  qed
  have n: "terminals (calls s) = []" if "phase s \<noteq> Finished"
    using i that by (simp add: inv1_def)
  have c1: "length (filter is_OnError (calls s)) \<le> 1 \<and>
            length (filter is_OnComplete (calls s)) \<le> 1 \<and>
            length (filter is_terminal (calls s)) \<le> 1 \<and>
            (has_onError h \<and> has_onComplete h \<and> CancelCalled \<notin> set evs \<and> phase s = Finished
             \<longrightarrow> length (filter is_terminal (calls s)) = 1)"
    using le ex filter_terminal_bounds [of "calls s"] by (auto simp add: terminals_def)
  have c2: "phase s \<noteq> Finished \<longrightarrow> filter is_terminal (calls s) = []"
    using n by (simp add: terminals_def)
  have c3: "phase s = AwaitFetch \<longrightarrow>
      phase (step P v h (FetchRejected e) s) = Finished \<and>
      filter is_terminal (calls (step P v h (FetchRejected e) s)) =
        (if \<not> aborted s \<and> has_onError h
         then [OnError (case e of ErrorInstance m \<Rightarrow> m
                                | NotAnError \<Rightarrow> ''Error desconocido al recibir el stream'')]
         else []) \<and>
      phase (step P v h (FetchFulfilled r) s) \<noteq> AwaitFetch"
    using n by (auto simp add: terminals_def [symmetric] on_response_def)
  have c4: "phase s = AwaitRead \<longrightarrow>
      phase (step P v h (ReadRejected e) s) = Finished \<and>
      filter is_terminal (calls (step P v h (ReadRejected e) s)) =
        (if \<not> aborted s \<and> has_onError h
         then [OnError (case e of ErrorInstance m \<Rightarrow> m
                                | NotAnError \<Rightarrow> ''Error desconocido al recibir el stream'')]
         else []) \<and>
      phase (step P v h ReadDone s) = Finished \<and>
      filter is_terminal (calls (step P v h ReadDone s)) =
        (if has_onComplete h then [OnComplete Undefined] else [])"
    using n by (auto simp add: terminals_def [symmetric])
  have c5: "phase s = AwaitJson r \<longrightarrow>
      phase (step P v h (JsonSettled j) s) = Finished \<and>
      filter is_terminal (calls (step P v h (JsonSettled j) s)) =
        (if \<not> aborted s \<and> has_onError h
         then [OnError (case error_of_response P r j of ErrorInstance m \<Rightarrow> m
                                | NotAnError \<Rightarrow> ''Error desconocido al recibir el stream'')]
         else [])"
    using n by (auto simp add: terminals_def [symmetric])
  have c6: "phase s = Finished \<longrightarrow>
      phase (run P v h later s) = Finished \<and>
      filter is_terminal (calls (run P v h later s)) = filter is_terminal (calls s)"
    using run_Finished [of s P v h later] by (simp add: terminals_def)
  show ?thesis using c1 c2 c3 c4 c5 c6 by blast
qed

theorem one_terminal_callback_witness:
  "has_onError both \<and> has_onComplete both \<and>
   CancelCalled \<notin> set [FetchFulfilled response_200, ReadDone :: int event] \<and>
   phase (run reference Authenticated both [FetchFulfilled response_200, ReadDone]
           (start Authenticated both (Some ''jwt''))) = Finished \<and>
   length (filter is_terminal
     (calls (run reference Authenticated both [FetchFulfilled response_200, ReadDone]
              (start Authenticated both (Some ''jwt''))))) = 1 \<and>
   phase (run reference Public both [] (start Public both None)) = AwaitFetch \<and>
   \<not> aborted (run reference Public both [] (start Public both None)) \<and>
   filter is_terminal
     (calls (step reference Public both (FetchRejected (ErrorInstance ''Failed to fetch''))
               (run reference Public both [] (start Public both None)))) =
     [OnError ''Failed to fetch''] \<and>
   phase (run reference Authenticated both [FetchFulfilled response_200]
           (start Authenticated both (Some ''jwt''))) = AwaitRead \<and>
   \<not> aborted (run reference Authenticated both [FetchFulfilled response_200]
               (start Authenticated both (Some ''jwt''))) \<and>
   filter is_terminal
     (calls (step reference Authenticated both (ReadRejected NotAnError)
               (run reference Authenticated both [FetchFulfilled response_200]
                  (start Authenticated both (Some ''jwt''))))) =
     [OnError ''Error desconocido al recibir el stream''] \<and>
   phase (step reference Authenticated both (ReadRejected NotAnError)
            (run reference Authenticated both [FetchFulfilled response_200]
               (start Authenticated both (Some ''jwt'')))) = Finished"
proof -
  have p: "phase (run reference Authenticated both [FetchFulfilled response_200, ReadDone]
                   (start Authenticated both (Some ''jwt''))) = Finished"
    by code_simp
  have b: "has_onError both \<and> has_onComplete both" by (simp add: both_def)
  have c: "CancelCalled \<notin> set [FetchFulfilled response_200, ReadDone :: int event]" by simp
  have w1: "length (filter is_terminal
     (calls (run reference Authenticated both [FetchFulfilled response_200, ReadDone]
              (start Authenticated both (Some ''jwt''))))) = 1"
    using one_terminal_callback
            [of "run reference Authenticated both [FetchFulfilled response_200, ReadDone]
                   (start Authenticated both (Some ''jwt''))"
                reference Authenticated both "[FetchFulfilled response_200, ReadDone]"
                "Some ''jwt''"] p b c
    by blast
  have q: "phase (run reference Public both [] (start Public both None)) = AwaitFetch \<and>
           \<not> aborted (run reference Public both [] (start Public both None))"
    by code_simp
  have w2: "filter is_terminal
     (calls (step reference Public both (FetchRejected (ErrorInstance ''Failed to fetch''))
               (run reference Public both [] (start Public both None)))) =
     [OnError ''Failed to fetch'']"
    using one_terminal_callback
            [of "run reference Public both [] (start Public both None)"
                reference Public both "[]" None "ErrorInstance ''Failed to fetch''"] q b
    by (simp del: run.simps step.simps)
  have r: "phase (run reference Authenticated both [FetchFulfilled response_200]
           (start Authenticated both (Some ''jwt''))) = AwaitRead \<and>
   \<not> aborted (run reference Authenticated both [FetchFulfilled response_200]
               (start Authenticated both (Some ''jwt'')))"
    by code_simp
  have w3: "filter is_terminal
     (calls (step reference Authenticated both (ReadRejected NotAnError)
               (run reference Authenticated both [FetchFulfilled response_200]
                  (start Authenticated both (Some ''jwt''))))) =
     [OnError ''Error desconocido al recibir el stream''] \<and>
   phase (step reference Authenticated both (ReadRejected NotAnError)
            (run reference Authenticated both [FetchFulfilled response_200]
               (start Authenticated both (Some ''jwt'')))) = Finished"
    using one_terminal_callback
            [of "run reference Authenticated both [FetchFulfilled response_200]
                   (start Authenticated both (Some ''jwt''))"
                reference Authenticated both "[FetchFulfilled response_200]"
                "Some ''jwt''" NotAnError] r b
    by (simp del: run.simps step.simps)
  show ?thesis using p b c w1 q w2 r w3 by blast
qed

text \<open>
  Claim C8. When \<open>streamChat\<close> is called and no credential is stored, \<open>onError\<close> is invoked
  with the authentication error before the function returns, \<open>fetch\<close> is never called,
  and the function returned does nothing: neither it nor any later event changes the
  stream.
\<close>

theorem no_credential:
  "\<not> truthy_token tok \<and> has_onError h \<and> s = streamChat h tok \<longrightarrow>
   calls s = [OnError not_authenticated] \<and> phase s = Finished \<and> requests s = [] \<and>
   cancel s = s \<and> run P Authenticated h evs s = s"
proof (intro impI)
  assume a: "\<not> truthy_token tok \<and> has_onError h \<and> s = streamChat h tok"
  have f: "phase s = Finished \<and> handle s = NoOp \<and> timers s = 0"
    using a by (simp add: streamChat_def fresh_def)
  have st: "step P Authenticated h e s = s" for e
    using f by (cases e) (simp_all add: cancel_def)
  have "run P Authenticated h es s = s" for es
    by (induction es) (simp_all add: st)
  then show "calls s = [OnError not_authenticated] \<and> phase s = Finished \<and>
             requests s = [] \<and> cancel s = s \<and> run P Authenticated h evs s = s"
    using a f by (simp add: streamChat_def fresh_def cancel_def)
qed

theorem no_credential_witness:
  "\<not> truthy_token None \<and> has_onError both \<and>
   calls (streamChat both None :: int stream) = [OnError not_authenticated] \<and>
   requests (streamChat both None :: int stream) = [] \<and>
   run reference Authenticated both [CancelCalled, FetchFulfilled response_200, TimerFired]
     (streamChat both None) = streamChat both None"
proof -
  have a: "\<not> truthy_token None \<and> has_onError both"
    by (simp add: truthy_token_def both_def)
  show ?thesis
    using no_credential [of None both "streamChat both None" reference
            "[CancelCalled, FetchFulfilled response_200, TimerFired]"] a
    by blast
qed

subsection \<open>Single lines\<close>

lemma startsWith_data:
  "startsWith t ''data: '' \<Longrightarrow> t \<noteq> [] \<and> \<not> startsWith t ''event: ''"
  by (cases t) (auto simp add: startsWith_def)

lemma legacy_line:
  "startsWith (trim l) ''data: '' \<Longrightarrow> trim (slice 6 (trim l)) = d \<Longrightarrow> d \<noteq> [] \<Longrightarrow>
   currentEvent s \<noteq> Some ''token'' \<Longrightarrow> currentEvent s \<noteq> Some ''done'' \<Longrightarrow>
   process_line P v h l s = legacy_event P v h d s"
  using startsWith_data [of "trim l"] by (simp add: process_line_def Let_def)

text \<open>
  Claim C9. A \<open>data:\<close> line that arrives while the current event is neither \<open>token\<close> nor
  \<open>done\<close>, and whose payload parses as JSON with \<open>event === "token"\<close> and a truthy \<open>data\<close>
  field: \<open>streamChat\<close> invokes \<open>onToken\<close> with that field at once and leaves the coalescing
  buffer and the timer alone, whatever the field; \<open>streamChatPublic\<close> invokes nothing,
  appends the field, as the string it converts to (a string as it is), to the coalescing
  buffer and schedules the flush if none is pending, and the flush delivers the buffer.
\<close>

theorem legacy_token_paths:
  "startsWith (trim line) ''data: '' \<and> trim (slice 6 (trim line)) = dataStr \<and> dataStr \<noteq> [] \<and>
   currentEvent s \<noteq> Some ''token'' \<and> currentEvent s \<noteq> Some ''done'' \<and>
   JSON_parse P dataStr = Some d \<and> Get d ''event'' = Some (Val (JStr ''token'')) \<and>
   Get d ''data'' = Some (Val x) \<and> ToBoolean P (Val x) \<longrightarrow>
   process_line P Authenticated h line s = Continue (s\<lparr>calls := calls s @ [OnToken x]\<rparr>) \<and>
   (ToString P x = Some text \<longrightarrow>
      process_line P Public h line s = Continue (append_visual text s) \<and>
      calls (append_visual text s) = calls s \<and>
      visualBuffer (append_visual text s) = visualBuffer s @ text \<and>
      flushTimeout (append_visual text s) \<and>
      timers (append_visual text s) = (if flushTimeout s then timers s else timers s + 1) \<and>
      (visualBuffer s @ text \<noteq> [] \<longrightarrow>
       calls (flush (append_visual text s)) =
         calls s @ [OnToken (JStr (visualBuffer s @ text))])) \<and>
   (x = JStr t \<longrightarrow> process_line P Public h line s = Continue (append_visual t s))"
proof (intro impI)
  assume a: "startsWith (trim line) ''data: '' \<and> trim (slice 6 (trim line)) = dataStr \<and>
    dataStr \<noteq> [] \<and> currentEvent s \<noteq> Some ''token'' \<and> currentEvent s \<noteq> Some ''done'' \<and>
    JSON_parse P dataStr = Some d \<and> Get d ''event'' = Some (Val (JStr ''token'')) \<and>
    Get d ''data'' = Some (Val x) \<and> ToBoolean P (Val x)"
  have l: "legacy_event P v h dataStr s =
             (case v of
                Authenticated \<Rightarrow> Continue (s\<lparr>calls := calls s @ [OnToken x]\<rparr>)
              | Public \<Rightarrow>
                  (case ToString P x of
                     None \<Rightarrow> Continue (raw_fallback dataStr s)
                   | Some text \<Rightarrow> Continue (append_visual text s)))" for v
    using a by (simp add: legacy_event_def split: variant.splits)
  have p: "process_line P v h line s = legacy_event P v h dataStr s" for v
    using a by (simp add: legacy_line)
  have c1: "process_line P Authenticated h line s =
              Continue (s\<lparr>calls := calls s @ [OnToken x]\<rparr>)"
    by (simp add: p l)
  have c2: "process_line P Public h line s = Continue (append_visual text s) \<and>
      calls (append_visual text s) = calls s \<and>
      visualBuffer (append_visual text s) = visualBuffer s @ text \<and>
      flushTimeout (append_visual text s) \<and>
      timers (append_visual text s) = (if flushTimeout s then timers s else timers s + 1) \<and>
      (visualBuffer s @ text \<noteq> [] \<longrightarrow>
       calls (flush (append_visual text s)) =
         calls s @ [OnToken (JStr (visualBuffer s @ text))])"
    if "ToString P x = Some text"
    using that by (simp add: p l append_visual_def flush_def Let_def)
  have c3: "process_line P Public h line s = Continue (append_visual t s)" if "x = JStr t"
    using that by (simp add: p l)
  show "process_line P Authenticated h line s = Continue (s\<lparr>calls := calls s @ [OnToken x]\<rparr>) \<and>
   (ToString P x = Some text \<longrightarrow>
      process_line P Public h line s = Continue (append_visual text s) \<and>
      calls (append_visual text s) = calls s \<and>
      visualBuffer (append_visual text s) = visualBuffer s @ text \<and>
      flushTimeout (append_visual text s) \<and>
      timers (append_visual text s) = (if flushTimeout s then timers s else timers s + 1) \<and>
      (visualBuffer s @ text \<noteq> [] \<longrightarrow>
       calls (flush (append_visual text s)) =
         calls s @ [OnToken (JStr (visualBuffer s @ text))])) \<and>
   (x = JStr t \<longrightarrow> process_line P Public h line s = Continue (append_visual t s))"
    using c1 c2 c3 by blast
qed

theorem legacy_token_paths_witness:
  "startsWith (trim (''data: '' @ payload_legacy_token)) ''data: '' \<and>
   trim (slice 6 (trim (''data: '' @ payload_legacy_token))) = payload_legacy_token \<and>
   payload_legacy_token \<noteq> [] \<and>
   JSON_parse reference payload_legacy_token =
     Some (JObj [(''event'', JStr ''token''), (''data'', JStr ''Hi'')]) \<and>
   ToString reference (JStr ''Hi'') = Some ''Hi'' \<and>
   process_line reference Authenticated both (''data: '' @ payload_legacy_token)
       (streamChat both (Some ''jwt'')) =
     Continue ((streamChat both (Some ''jwt''))\<lparr>calls := [OnToken (JStr ''Hi'')]\<rparr>) \<and>
   process_line reference Public both (''data: '' @ payload_legacy_token)
       (streamChatPublic both None) =
     Continue (append_visual ''Hi'' (streamChatPublic both None)) \<and>
   calls (flush (append_visual ''Hi'' (streamChatPublic both None :: int stream))) =
     [OnToken (JStr ''Hi'')]"
proof -
  have l: "startsWith (trim (''data: '' @ payload_legacy_token)) ''data: '' \<and>
           trim (slice 6 (trim (''data: '' @ payload_legacy_token))) = payload_legacy_token \<and>
           payload_legacy_token \<noteq> []"
    by code_simp
  have j: "JSON_parse reference payload_legacy_token =
             Some (JObj [(''event'', JStr ''token''), (''data'', JStr ''Hi'')])"
    by code_simp
  have g: "Get (JObj [(''event'', JStr ''token''), (''data'', JStr ''Hi'')] :: int json) ''event'' =
             Some (Val (JStr ''token'')) \<and>
           Get (JObj [(''event'', JStr ''token''), (''data'', JStr ''Hi'')] :: int json) ''data'' =
             Some (Val (JStr ''Hi'')) \<and>
           ToBoolean reference (Val (JStr ''Hi'')) \<and>
           ToString reference (JStr ''Hi'') = Some ''Hi''"
    by simp
  have c: "currentEvent (streamChat both (Some ''jwt'') :: int stream) = None \<and>
           currentEvent (streamChatPublic both None :: int stream) = None \<and>
           calls (streamChat both (Some ''jwt'') :: int stream) = [] \<and>
           calls (streamChatPublic both None :: int stream) = [] \<and>
           visualBuffer (streamChatPublic both None :: int stream) = []"
    by (simp add: streamChat_def streamChatPublic_def fresh_def truthy_token_def)
  have a: "process_line reference Authenticated both (''data: '' @ payload_legacy_token)
       (streamChat both (Some ''jwt'')) =
     Continue ((streamChat both (Some ''jwt''))\<lparr>calls := [OnToken (JStr ''Hi'')]\<rparr>)"
    using legacy_token_paths
            [of "''data: '' @ payload_legacy_token" payload_legacy_token
                "streamChat both (Some ''jwt'')" reference
                "JObj [(''event'', JStr ''token''), (''data'', JStr ''Hi'')]" "JStr ''Hi''"
                both "''Hi''"]
          l j g c
    by simp
  have b: "process_line reference Public both (''data: '' @ payload_legacy_token)
       (streamChatPublic both None) =
     Continue (append_visual ''Hi'' (streamChatPublic both None)) \<and>
   calls (flush (append_visual ''Hi'' (streamChatPublic both None :: int stream))) =
     [OnToken (JStr ''Hi'')]"
    using legacy_token_paths
            [of "''data: '' @ payload_legacy_token" payload_legacy_token
                "streamChatPublic both None" reference
                "JObj [(''event'', JStr ''token''), (''data'', JStr ''Hi'')]" "JStr ''Hi''"
                both "''Hi''"]
          l j g c
    by simp
  show ?thesis using l j g a b by blast
qed

text \<open>
  A \<open>data\<close> field without a string conversion (an object with a member \<open>toString\<close>, or an
  array that holds one) is passed to \<open>onToken\<close> by \<open>streamChat\<close> all the same. In
  \<open>streamChatPublic\<close> the conversion throws inside the \<open>try\<close>, and the line is treated as
  one that is not JSON.
\<close>

lemma legacy_token_unconvertible:
  assumes "startsWith (trim line) ''data: ''" and "trim (slice 6 (trim line)) = dataStr"
    and "dataStr \<noteq> []"
    and "currentEvent s \<noteq> Some ''token''" and "currentEvent s \<noteq> Some ''done''"
    and "JSON_parse P dataStr = Some d" and "Get d ''event'' = Some (Val (JStr ''token''))"
    and "Get d ''data'' = Some (Val x)" and "ToBoolean P (Val x)" and "ToString P x = None"
  shows "process_line P Public h line s = Continue (raw_fallback dataStr s)"
    and "process_line P Authenticated h line s = Continue (s\<lparr>calls := calls s @ [OnToken x]\<rparr>)"
  using assms by (simp_all add: legacy_line legacy_event_def)

lemma ToString_member:
  "ToString P (JObj [(''toString'', v)]) = None"
  "ToString P (JArr [JNum n, JObj [(''toString'', v)]]) = None"
  "ToString P (JObj [(''a'', v)]) = Some ''[object Object]''"
  "ToString P (JArr [JStr ''a'', JNull, JArr [JStr ''b'', JStr ''c'']]) = Some ''a,,b,c''"
  by simp_all

subsection \<open>Responses\<close>

lemma start_simps:
  "truthy_token tok \<Longrightarrow> phase (streamChat h tok) = AwaitFetch"
  "truthy_token tok \<Longrightarrow> calls (streamChat h tok) = []"
  "truthy_token tok \<Longrightarrow> aborted (streamChat h tok) = False"
  "truthy_token tok \<Longrightarrow> auth_token (streamChat h tok) = tok"
  "phase (streamChatPublic h tok) = AwaitFetch"
  "calls (streamChatPublic h tok) = []"
  "aborted (streamChatPublic h tok) = False"
  "auth_token (streamChatPublic h tok) = tok"
  by (simp_all add: streamChat_def streamChatPublic_def fresh_def)

text \<open>
  Claim C10. When the response to the request of \<open>streamChat\<close> has status 401, the stored
  token is removed from the storage and, the stream not being cancelled, \<open>onError\<close> is
  invoked with the session-expired message, whatever the body of the response; nothing
  that happens later brings the token back or invokes another terminal callback.
  \<open>streamChatPublic\<close> never changes the stored token, whatever the events.
\<close>

theorem unauthorized_removes_token:
  "(truthy_token tok \<and> has_onError h \<and> status r = 401 \<longrightarrow>
      auth_token (run P Authenticated h (FetchFulfilled r # evs) (streamChat h tok)) = None \<and>
      filter is_terminal
        (calls (run P Authenticated h (FetchFulfilled r # evs) (streamChat h tok))) =
        [OnError session_expired] \<and>
      calls (step P Authenticated h (FetchFulfilled r) (streamChat h tok)) =
        [OnError session_expired]) \<and>
   (phase s = AwaitFetch \<and> status r = 401 \<longrightarrow>
      auth_token (step P Authenticated h (FetchFulfilled r) s) = None) \<and>
   auth_token (run P Public h evs s) = auth_token s"
proof -
  have a: "auth_token (step P Authenticated h (FetchFulfilled r) s) = None"
    if "phase s = AwaitFetch" "status r = 401" for s :: "'a stream"
    using that by (simp add: on_response_def)
  have b: "auth_token (run P Authenticated h (FetchFulfilled r # evs) (streamChat h tok)) = None \<and>
      terminals (calls (run P Authenticated h (FetchFulfilled r # evs) (streamChat h tok))) =
        [OnError session_expired] \<and>
      calls (step P Authenticated h (FetchFulfilled r) (streamChat h tok)) =
        [OnError session_expired]"
    if t: "truthy_token tok" "has_onError h" "status r = 401"
  proof -
    let ?s1 = "step P Authenticated h (FetchFulfilled r) (streamChat h tok)"
    have s1: "phase ?s1 = Finished \<and> auth_token ?s1 = None \<and> calls ?s1 = [OnError session_expired]"
      using t by (simp add: start_simps on_response_def)
    then show ?thesis using run_Finished [of ?s1 P Authenticated h evs] by simp
  qed
  show ?thesis using a b by (simp add: run_Public_auth_token terminals_def)
qed

theorem unauthorized_removes_token_witness:
  "truthy_token (Some ''jwt'') \<and> has_onError both \<and> status response_401 = 401 \<and>
   phase (streamChat both (Some ''jwt'') :: int stream) = AwaitFetch \<and>
   auth_token (run reference Authenticated both
                 [FetchFulfilled response_401, JsonSettled None, TimerFired]
                 (streamChat both (Some ''jwt''))) = None \<and>
   calls (step reference Authenticated both (FetchFulfilled response_401)
            (streamChat both (Some ''jwt''))) = [OnError session_expired] \<and>
   auth_token (step reference Authenticated both (FetchFulfilled response_401)
                 (streamChat both (Some ''jwt''))) = None"
proof -
  have a: "truthy_token (Some ''jwt'') \<and> has_onError both \<and> status response_401 = 401"
    by (simp add: truthy_token_def both_def response_401_def)
  then have p: "phase (streamChat both (Some ''jwt'') :: int stream) = AwaitFetch"
    by (simp add: start_simps)
  show ?thesis
    using unauthorized_removes_token
            [of "Some ''jwt''" both response_401 reference "[JsonSettled None, TimerFired]"
                "streamChat both (Some ''jwt'')"] a p
    by blast
qed

text \<open>
  Claim C7, as the code has it. A stream that is not cancelled and whose response has a
  status outside 200..299 invokes \<open>onError\<close> exactly once, whatever the body and whatever
  happens later. The message is the \<open>detail\<close> of the JSON body, converted to a string, when
  that is truthy; it is \<open>Error <status>: <statusText>\<close> when the body is not JSON or its
  \<open>detail\<close> is absent or falsy; and it is that of the \<open>TypeError\<close> which the code meets
  when the body is the JSON \<open>null\<close> or the detail has no string conversion. Excepted is
  status 401 in \<open>streamChat\<close>, where the body is not read (claim C10). A response with
  status 200..299 and no body invokes \<open>onError\<close> exactly once with a fixed message. In
  particular status 500 with the body \<open>{"detail":"server overloaded"}\<close> gives the message
  \<open>server overloaded\<close>.
\<close>

theorem error_response:
  "(v = Authenticated \<longrightarrow> truthy_token tok \<and> status r \<noteq> 401) \<and> has_onError h \<longrightarrow>
   (status r < 200 \<or> 299 < status r \<longrightarrow>
      \<not> ok r \<and>
      (\<exists>m. filter is_terminal
             (calls (run P v h (FetchFulfilled r # JsonSettled j # evs) (start v h tok)))
           = [OnError m])) \<and>
   (\<not> ok r \<and> j = Some body \<and> Get body ''detail'' = Some (Val d) \<and> ToBoolean P (Val d) \<and>
    ToString P d = Some message \<longrightarrow>
      filter is_terminal (calls (run P v h (FetchFulfilled r # JsonSettled j # evs) (start v h tok)))
        = [OnError message]) \<and>
   (\<not> ok r \<and> (j = None \<or> (j = Some body \<and> Get body ''detail'' = Some x \<and> \<not> ToBoolean P x)) \<longrightarrow>
      filter is_terminal (calls (run P v h (FetchFulfilled r # JsonSettled j # evs) (start v h tok)))
        = [OnError (''Error '' @ decimal (status r) @ '': '' @ statusText r)]) \<and>
   (\<not> ok r \<and> j = Some body \<and> Get body ''detail'' = None \<longrightarrow>
      body = JNull \<and>
      filter is_terminal (calls (run P v h (FetchFulfilled r # JsonSettled j # evs) (start v h tok)))
        = [OnError (TypeError_null P ''detail'')]) \<and>
   (\<not> ok r \<and> j = Some body \<and> Get body ''detail'' = Some (Val d) \<and> ToBoolean P (Val d) \<and>
    ToString P d = None \<longrightarrow>
      filter is_terminal (calls (run P v h (FetchFulfilled r # JsonSettled j # evs) (start v h tok)))
        = [OnError (TypeError_primitive P d)]) \<and>
   (200 \<le> status r \<and> status r \<le> 299 \<and> \<not> body_present r \<longrightarrow>
      filter is_terminal (calls (run P v h (FetchFulfilled r # evs) (start v h tok)))
        = [OnError no_body]) \<and>
   (status r = 500 \<and> j = Some (JObj [(''detail'', JStr ''server overloaded'')]) \<longrightarrow>
      filter is_terminal (calls (run P v h (FetchFulfilled r # JsonSettled j # evs) (start v h tok)))
        = [OnError ''server overloaded''])"
proof (intro impI)
  assume a: "(v = Authenticated \<longrightarrow> truthy_token tok \<and> status r \<noteq> 401) \<and> has_onError h"
  let ?s0 = "start v h tok :: 'a stream"
  let ?t = "filter is_terminal
              (calls (run P v h (FetchFulfilled r # JsonSettled j # evs) (start v h tok)))"
  have s0: "phase ?s0 = AwaitFetch \<and> calls ?s0 = [] \<and> \<not> aborted ?s0"
    using a by (cases v) (simp_all add: start_def start_simps)
  have fin: "terminals (calls (run P v h evs s)) = [OnError m]"
    if "phase s = Finished" "calls s = [OnError m]" for s :: "'a stream" and m
    using run_Finished [of s P v h evs] that by simp
  have bad: "?t = [OnError (case error_of_response P r j of
                              ErrorInstance m \<Rightarrow> m
                            | NotAnError \<Rightarrow> ''Error desconocido al recibir el stream'')]"
    if "\<not> ok r"
  proof -
    let ?s1 = "step P v h (FetchFulfilled r) ?s0"
    have s1: "phase ?s1 = AwaitJson r \<and> calls ?s1 = [] \<and> \<not> aborted ?s1"
      using a s0 that by (auto simp add: on_response_def)
    let ?s2 = "step P v h (JsonSettled j) ?s1"
    have "phase ?s2 = Finished \<and>
          calls ?s2 = [OnError (case error_of_response P r j of
                                  ErrorInstance m \<Rightarrow> m
                                | NotAnError \<Rightarrow> ''Error desconocido al recibir el stream'')]"
      using a s1 by simp
    then show ?thesis using fin [of ?s2] by (simp add: terminals_def)
  qed
  have nb: "filter is_terminal (calls (run P v h (FetchFulfilled r # evs) ?s0)) = [OnError no_body]"
    if "ok r" "\<not> body_present r"
  proof -
    let ?s1 = "step P v h (FetchFulfilled r) ?s0"
    have "phase ?s1 = Finished \<and> calls ?s1 = [OnError no_body]"
      using a s0 that by (auto simp add: on_response_def)
    then show ?thesis using fin [of ?s1] by (simp add: terminals_def)
  qed
  have n500: "\<not> ok r" if "status r = 500" using that by (simp add: ok_def)
  have null: "body = JNull" if "Get body ''detail'' = None"
    using that by (cases body) simp_all
  have c1: "status r < 200 \<or> 299 < status r \<longrightarrow> \<not> ok r \<and> (\<exists>m. ?t = [OnError m])"
    using bad by (auto simp add: ok_def simp del: run.simps step.simps)
  have c2: "\<not> ok r \<and> j = Some body \<and> Get body ''detail'' = Some (Val d) \<and> ToBoolean P (Val d) \<and>
            ToString P d = Some message \<longrightarrow> ?t = [OnError message]"
    using bad by (auto simp add: error_of_response_def simp del: run.simps step.simps)
  have c3: "\<not> ok r \<and> (j = None \<or> (j = Some body \<and> Get body ''detail'' = Some x \<and> \<not> ToBoolean P x))
            \<longrightarrow> ?t = [OnError (''Error '' @ decimal (status r) @ '': '' @ statusText r)]"
    using bad
    by (auto simp add: error_of_response_def simp del: run.simps step.simps split: jsval.splits)
  have c4: "\<not> ok r \<and> j = Some body \<and> Get body ''detail'' = None \<longrightarrow>
            body = JNull \<and> ?t = [OnError (TypeError_null P ''detail'')]"
    using bad null by (auto simp add: error_of_response_def simp del: run.simps step.simps)
  have c5: "\<not> ok r \<and> j = Some body \<and> Get body ''detail'' = Some (Val d) \<and> ToBoolean P (Val d) \<and>
            ToString P d = None \<longrightarrow> ?t = [OnError (TypeError_primitive P d)]"
    using bad by (auto simp add: error_of_response_def simp del: run.simps step.simps)
  have c6: "200 \<le> status r \<and> status r \<le> 299 \<and> \<not> body_present r \<longrightarrow>
            filter is_terminal (calls (run P v h (FetchFulfilled r # evs) ?s0)) = [OnError no_body]"
    using nb by (simp add: ok_def del: run.simps step.simps)
  have c7: "status r = 500 \<and> j = Some (JObj [(''detail'', JStr ''server overloaded'')]) \<longrightarrow>
            ?t = [OnError ''server overloaded'']"
    using bad n500 by (auto simp add: error_of_response_def simp del: run.simps step.simps)
  show "(status r < 200 \<or> 299 < status r \<longrightarrow>
      \<not> ok r \<and>
      (\<exists>m. filter is_terminal
             (calls (run P v h (FetchFulfilled r # JsonSettled j # evs) (start v h tok)))
           = [OnError m])) \<and>
   (\<not> ok r \<and> j = Some body \<and> Get body ''detail'' = Some (Val d) \<and> ToBoolean P (Val d) \<and>
    ToString P d = Some message \<longrightarrow>
      filter is_terminal (calls (run P v h (FetchFulfilled r # JsonSettled j # evs) (start v h tok)))
        = [OnError message]) \<and>
   (\<not> ok r \<and> (j = None \<or> (j = Some body \<and> Get body ''detail'' = Some x \<and> \<not> ToBoolean P x)) \<longrightarrow>
      filter is_terminal (calls (run P v h (FetchFulfilled r # JsonSettled j # evs) (start v h tok)))
        = [OnError (''Error '' @ decimal (status r) @ '': '' @ statusText r)]) \<and>
   (\<not> ok r \<and> j = Some body \<and> Get body ''detail'' = None \<longrightarrow>
      body = JNull \<and>
      filter is_terminal (calls (run P v h (FetchFulfilled r # JsonSettled j # evs) (start v h tok)))
        = [OnError (TypeError_null P ''detail'')]) \<and>
   (\<not> ok r \<and> j = Some body \<and> Get body ''detail'' = Some (Val d) \<and> ToBoolean P (Val d) \<and>
    ToString P d = None \<longrightarrow>
      filter is_terminal (calls (run P v h (FetchFulfilled r # JsonSettled j # evs) (start v h tok)))
        = [OnError (TypeError_primitive P d)]) \<and>
   (200 \<le> status r \<and> status r \<le> 299 \<and> \<not> body_present r \<longrightarrow>
      filter is_terminal (calls (run P v h (FetchFulfilled r # evs) (start v h tok)))
        = [OnError no_body]) \<and>
   (status r = 500 \<and> j = Some (JObj [(''detail'', JStr ''server overloaded'')]) \<longrightarrow>
      filter is_terminal (calls (run P v h (FetchFulfilled r # JsonSettled j # evs) (start v h tok)))
        = [OnError ''server overloaded''])"
    using c1 c2 c3 c4 c5 c6 c7 by blast
qed

theorem error_response_witness:
  "truthy_token (Some ''jwt'') \<and> status response_500 \<noteq> 401 \<and>
   has_onError both \<and> \<not> ok response_500 \<and> status response_500 = 500 \<and>
   Get (JObj [(''detail'', JStr ''server overloaded'')] :: int json) ''detail'' =
     Some (Val (JStr ''server overloaded'')) \<and>
   ToBoolean reference (Val (JStr ''server overloaded'')) \<and>
   ToString reference (JStr ''server overloaded'') = Some ''server overloaded'' \<and>
   filter is_terminal
     (calls (run reference Authenticated both
               [FetchFulfilled response_500,
                JsonSettled (Some (JObj [(''detail'', JStr ''server overloaded'')])), TimerFired]
               (start Authenticated both (Some ''jwt''))))
     = [OnError ''server overloaded''] \<and>
   filter is_terminal
     (calls (run reference Public both
               [FetchFulfilled response_500, JsonSettled None, TimerFired]
               (start Public both None)))
     = [OnError ''Error 500: Internal Server Error''] \<and>
   filter is_terminal
     (calls (run reference Public both
               [FetchFulfilled response_500, JsonSettled (Some JNull), TimerFired]
               (start Public both None)))
     = [OnError (''Cannot read properties of null (reading '' @ [CHR 0x27] @ ''detail'' @
                 [CHR 0x27] @ '')'')] \<and>
   filter is_terminal
     (calls (run reference Public both
               [FetchFulfilled response_500,
                JsonSettled (Some (JObj [(''detail'', JObj [(''toString'', JNum 1)])])),
                TimerFired]
               (start Public both None)))
     = [OnError ''Cannot convert object to primitive value'']"
proof -
  have a: "truthy_token (Some ''jwt'') \<and> status response_500 \<noteq> 401 \<and>
           has_onError both \<and> \<not> ok response_500 \<and> status response_500 = 500"
    by (simp add: truthy_token_def both_def response_500_def ok_def)
  have g: "Get (JObj [(''detail'', JStr ''server overloaded'')] :: int json) ''detail'' =
             Some (Val (JStr ''server overloaded'')) \<and>
           ToBoolean reference (Val (JStr ''server overloaded'')) \<and>
           ToString reference (JStr ''server overloaded'') = Some ''server overloaded''"
    by simp
  have w1: "filter is_terminal
     (calls (run reference Authenticated both
               [FetchFulfilled response_500,
                JsonSettled (Some (JObj [(''detail'', JStr ''server overloaded'')])), TimerFired]
               (start Authenticated both (Some ''jwt''))))
     = [OnError ''server overloaded'']"
    using error_response
            [of Authenticated "Some ''jwt''" response_500 both reference
                "Some (JObj [(''detail'', JStr ''server overloaded'')])" "[TimerFired]"
                "JObj [(''detail'', JStr ''server overloaded'')]" "JStr ''server overloaded''"
                "''server overloaded''"] a g
    by simp
  have d: "''Error '' @ decimal (status response_500) @ '': '' @ statusText response_500 =
           ''Error 500: Internal Server Error''"
    by code_simp
  have w2: "filter is_terminal
     (calls (run reference Public both
               [FetchFulfilled response_500, JsonSettled None, TimerFired]
               (start Public both None)))
     = [OnError ''Error 500: Internal Server Error'']"
    using error_response [of Public None response_500 both reference None "[TimerFired]"] a d
    by (simp del: run.simps step.simps)
  have n: "Get (JNull :: int json) ''detail'' = None \<and>
           TypeError_null reference ''detail'' =
             ''Cannot read properties of null (reading '' @ [CHR 0x27] @ ''detail'' @
             [CHR 0x27] @ '')''"
    by (simp add: reference_def)
  have w3: "filter is_terminal
     (calls (run reference Public both
               [FetchFulfilled response_500, JsonSettled (Some JNull), TimerFired]
               (start Public both None)))
     = [OnError (''Cannot read properties of null (reading '' @ [CHR 0x27] @ ''detail'' @
                 [CHR 0x27] @ '')'')]"
    using error_response
            [of Public None response_500 both reference "Some JNull" "[TimerFired]" JNull] a n
    by (simp del: run.simps step.simps)
  have u: "Get (JObj [(''detail'', JObj [(''toString'', JNum 1)])] :: int json) ''detail'' =
             Some (Val (JObj [(''toString'', JNum 1)])) \<and>
           ToBoolean reference (Val (JObj [(''toString'', JNum 1)])) \<and>
           ToString reference (JObj [(''toString'', JNum 1)]) = None \<and>
           TypeError_primitive reference (JObj [(''toString'', JNum 1)]) =
             ''Cannot convert object to primitive value''"
    by (simp add: reference_def)
  have w4: "filter is_terminal
     (calls (run reference Public both
               [FetchFulfilled response_500,
                JsonSettled (Some (JObj [(''detail'', JObj [(''toString'', JNum 1)])])),
                TimerFired]
               (start Public both None)))
     = [OnError ''Cannot convert object to primitive value'']"
    using error_response
            [of Public None response_500 both reference
                "Some (JObj [(''detail'', JObj [(''toString'', JNum 1)])])" "[TimerFired]"
                "JObj [(''detail'', JObj [(''toString'', JNum 1)])]"
                "JObj [(''toString'', JNum 1)]"] a u
    by (simp del: run.simps step.simps)
  show ?thesis using a g w1 w2 w3 w4 by blast
qed

text \<open>
  Claim C7 as it is stated fails in \<open>streamChat\<close> at status 401: the body carries a detail,
  and the error is the fixed message of \<open>authenticatedFetch\<close>.
\<close>

theorem error_response_counterexample:
  "\<not> ok response_401 \<and>
   calls (run reference Authenticated both
            [FetchFulfilled response_401, JsonSettled (Some (JObj [(''detail'', JStr ''bad token'')]))]
            (start Authenticated both (Some ''jwt''))) \<noteq> [OnError ''bad token''] \<and>
   calls (run reference Authenticated both
            [FetchFulfilled response_401, JsonSettled (Some (JObj [(''detail'', JStr ''bad token'')]))]
            (start Authenticated both (Some ''jwt''))) = [OnError session_expired]"
  by code_simp

subsection \<open>Trimming\<close>

lemma trim_fixed:
  "s \<noteq> [] \<Longrightarrow> \<not> is_whitespace (hd s) \<Longrightarrow> \<not> is_whitespace (last s) \<Longrightarrow> trim s = s"
proof -
  assume a: "s \<noteq> []" "\<not> is_whitespace (hd s)" "\<not> is_whitespace (last s)"
  have "dropWhile is_whitespace s = s" using a by (cases s) simp_all
  moreover have "dropWhile is_whitespace (rev s) = rev s"
    using a by (cases "rev s") (simp_all add: last_rev [symmetric] hd_rev)
  ultimately show ?thesis by (simp add: trim_def)
qed

lemma trim_ends:
  assumes "trim s = s" and "s \<noteq> []"
  shows "\<not> is_whitespace (hd s) \<and> \<not> is_whitespace (last s)"
proof -
  let ?d = "dropWhile is_whitespace s"
  have "length (trim s) \<le> length ?d"
    by (simp add: trim_def) (metis length_dropWhile_le length_rev)
  then have "length s \<le> length ?d" using assms by simp
  then have d: "?d = s"
    by (metis append_eq_conv_conj drop_all takeWhile_dropWhile_id length_append
          add_le_same_cancel2 le_0_eq length_0_conv self_append_conv2)
  then have h: "\<not> is_whitespace (hd s)" using assms(2) by (metis hd_dropWhile)
  have "rev (dropWhile is_whitespace (rev s)) = s" using assms d by (simp add: trim_def)
  then have "dropWhile is_whitespace (rev s) = rev s" by (metis rev_rev_ident)
  then have "\<not> is_whitespace (hd (rev s))" using assms(2) by (metis hd_dropWhile rev_is_Nil_conv)
  then show ?thesis using h assms(2) by (simp add: hd_rev)
qed

lemma trim_data_line: "trim p = p \<Longrightarrow> p \<noteq> [] \<Longrightarrow> trim (''data: '' @ p) = ''data: '' @ p"
proof -
  assume a: "trim p = p" "p \<noteq> []"
  then have "\<not> is_whitespace (last p)" using trim_ends by blast
  then show ?thesis using a by (intro trim_fixed) (simp_all add: is_whitespace_def)
qed

lemma event_line:
  "process_line P v h ''event: done'' s = Continue (s\<lparr>currentEvent := Some ''done''\<rparr>)"
  by (simp add: process_line_def trim_def is_whitespace_def startsWith_def slice_def Let_def)

lemma done_line:
  "startsWith (trim line) ''data: '' \<Longrightarrow> trim (slice 6 (trim line)) = dataStr \<Longrightarrow>
   dataStr \<noteq> [] \<Longrightarrow> currentEvent s = Some ''done'' \<Longrightarrow>
   process_line P v h line s = Return (done_event P h dataStr s)"
  using startsWith_data [of "trim line"] by (simp add: process_line_def Let_def)

lemma done_event_calls:
  "has_onComplete h \<Longrightarrow>
   done_event P h dataStr s =
     s\<lparr>calls := calls s @
          [OnComplete (case JSON_parse P dataStr of None \<Rightarrow> Undefined
                       | Some d \<Rightarrow> conversation_id d)]\<rparr>"
  by (simp add: done_event_def onComplete_def conversation_id_def split: option.splits)

lemma two_lines:
  "LF \<notin> set l1 \<Longrightarrow> LF \<notin> set l2 \<Longrightarrow> reassemble [] (unlines [l1, l2]) = ([l1, l2], [])"
proof -
  assume a: "LF \<notin> set l1" "LF \<notin> set l2"
  have "split LF (l1 @ LF # l2 @ LF # []) = [l1, l2, []]"
    by (simp only: split_append_sep [OF a(1)] split_append_sep [OF a(2)] split.simps)
  then show ?thesis by (simp add: reassemble_def unlines_def)
qed

lemma on_chunk_return_second:
  "reassemble (buffer s) w = ([l1, l2], b) \<Longrightarrow>
   process_line P v h l1 (s\<lparr>buffer := b\<rparr>) = Continue s1 \<Longrightarrow>
   process_line P v h l2 s1 = Return s2 \<Longrightarrow>
   on_chunk P v h w s = s2\<lparr>phase := Finished\<rparr>"
  by (simp add: on_chunk_def)

text \<open>
  Claim C6. When the loop reaches the data of a \<open>done\<close> event, \<open>onComplete\<close> is invoked with
  the \<open>conversation_id\<close> of the payload if the payload parses as JSON, and with
  \<open>undefined\<close> if it does not, and the function returns; when the transport signals the
  end of the data instead, \<open>onComplete\<close> is invoked with no argument. From the start of a
  stream: after a successful response, a chunk that carries a \<open>done\<close> event with any
  payload, or the end of the data, makes \<open>onComplete\<close> the one terminal callback of the
  stream, whatever happens later, so \<open>onError\<close> is never invoked.
\<close>

theorem done_completes:
  "has_onComplete h \<longrightarrow>
   (startsWith (trim line) ''data: '' \<and> trim (slice 6 (trim line)) = dataStr \<and> dataStr \<noteq> [] \<and>
    currentEvent s = Some ''done'' \<longrightarrow>
      process_line P v h line s =
        Return (s\<lparr>calls := calls s @
                  [OnComplete (case JSON_parse P dataStr of None \<Rightarrow> Undefined
                               | Some d \<Rightarrow> conversation_id d)]\<rparr>)) \<and>
   (phase s = AwaitRead \<longrightarrow>
      step P v h ReadDone s = s\<lparr>calls := calls s @ [OnComplete Undefined], phase := Finished\<rparr>) \<and>
   ((v = Authenticated \<longrightarrow> truthy_token tok) \<and> ok r \<and> body_present r \<longrightarrow>
      (trim p = p \<and> p \<noteq> [] \<and> LF \<notin> set p \<longrightarrow>
         filter is_terminal
           (calls (run P v h
              (FetchFulfilled r # ReadChunk (unlines [''event: done'', ''data: '' @ p]) # evs)
              (start v h tok))) =
           [OnComplete (case JSON_parse P p of None \<Rightarrow> Undefined
                        | Some d \<Rightarrow> conversation_id d)]) \<and>
      filter is_terminal (calls (run P v h (FetchFulfilled r # ReadDone # evs) (start v h tok))) =
        [OnComplete Undefined])"
proof (intro impI)
  assume h: "has_onComplete h"
  have A: "process_line P v h line s =
        Return (s\<lparr>calls := calls s @
                  [OnComplete (case JSON_parse P dataStr of None \<Rightarrow> Undefined
                               | Some d \<Rightarrow> conversation_id d)]\<rparr>)"
    if "startsWith (trim line) ''data: ''" "trim (slice 6 (trim line)) = dataStr" "dataStr \<noteq> []"
       "currentEvent s = Some ''done''"
    using that h by (simp add: done_line done_event_calls)
  have B: "step P v h ReadDone s = s\<lparr>calls := calls s @ [OnComplete Undefined], phase := Finished\<rparr>"
    if "phase s = AwaitRead"
    using that h by (simp add: onComplete_def)
  have C: "(trim p = p \<and> p \<noteq> [] \<and> LF \<notin> set p \<longrightarrow>
         filter is_terminal
           (calls (run P v h
              (FetchFulfilled r # ReadChunk (unlines [''event: done'', ''data: '' @ p]) # evs)
              (start v h tok))) =
           [OnComplete (case JSON_parse P p of None \<Rightarrow> Undefined
                        | Some d \<Rightarrow> conversation_id d)]) \<and>
      filter is_terminal (calls (run P v h (FetchFulfilled r # ReadDone # evs) (start v h tok))) =
        [OnComplete Undefined]"
    if t: "v = Authenticated \<longrightarrow> truthy_token tok" "ok r" "body_present r"
  proof -
    let ?s0 = "start v h tok :: 'a stream"
    have s0: "phase ?s0 = AwaitFetch \<and> calls ?s0 = [] \<and> \<not> aborted ?s0"
      using t by (cases v) (simp_all add: start_def start_simps)
    let ?s1 = "step P v h (FetchFulfilled r) ?s0"
    have n401: "status r \<noteq> 401" using t(2) by (simp add: ok_def)
    have s1: "phase ?s1 = AwaitRead \<and> calls ?s1 = [] \<and> buffer ?s1 = [] \<and> currentEvent ?s1 = None"
      using t s0 n401 by (simp add: on_response_def loop_head_def)
    have fin: "terminals (calls (run P v h evs s')) = [OnComplete c]"
      if "phase s' = Finished" "calls s' = [OnComplete c]" for s' :: "'a stream" and c
      using run_Finished [of s' P v h evs] that by simp
    have c1: "terminals
           (calls (run P v h
              (FetchFulfilled r # ReadChunk (unlines [''event: done'', ''data: '' @ p]) # evs)
              (start v h tok))) =
           [OnComplete (case JSON_parse P p of None \<Rightarrow> Undefined
                        | Some d \<Rightarrow> conversation_id d)]"
      if p: "trim p = p" "p \<noteq> []" "LF \<notin> set p"
    proof -
      define dl where "dl = ''data: '' @ p"
      have tl: "trim dl = dl" unfolding dl_def using p(1) p(2) by (rule trim_data_line)
      have dl: "startsWith dl ''data: '' \<and> slice 6 dl = p \<and> LF \<notin> set dl"
        using p(3) by (simp add: dl_def startsWith_def slice_def LF_def)
      let ?w = "unlines [''event: done'', dl]"
      let ?s2 = "step P v h (ReadChunk ?w) ?s1"
      let ?s' = "?s1\<lparr>buffer := [], currentEvent := Some ''done''\<rparr>"
      have r: "reassemble (buffer ?s1) ?w = ([''event: done'', dl], [])"
        using s1 dl by (simp add: two_lines LF_def del: step.simps)
      have l1: "process_line P v h ''event: done'' (?s1\<lparr>buffer := []\<rparr>) = Continue ?s'"
        by (simp add: event_line del: step.simps)
      have l2: "process_line P v h dl ?s' = Return (done_event P h p ?s')"
        by (rule done_line) (simp_all add: tl dl p del: step.simps)
      have "?s2 = (done_event P h p ?s')\<lparr>phase := Finished\<rparr>"
        using s1 on_chunk_return_second [OF r l1 l2] by (simp del: step.simps(1))
      then have "phase ?s2 = Finished \<and>
            calls ?s2 = [OnComplete (case JSON_parse P p of None \<Rightarrow> Undefined
                                     | Some d \<Rightarrow> conversation_id d)]"
        using s1 h by (simp add: done_event_calls del: step.simps)
      then have "terminals (calls (run P v h (FetchFulfilled r # ReadChunk ?w # evs) (start v h tok))) =
           [OnComplete (case JSON_parse P p of None \<Rightarrow> Undefined
                        | Some d \<Rightarrow> conversation_id d)]"
        using fin [of ?s2] by (simp del: step.simps)
      then show ?thesis by (simp only: dl_def)
    qed
    have c2: "terminals (calls (run P v h (FetchFulfilled r # ReadDone # evs) (start v h tok))) =
                [OnComplete Undefined]"
    proof -
      let ?s2 = "step P v h ReadDone ?s1"
      have "phase ?s2 = Finished \<and> calls ?s2 = [OnComplete Undefined]"
        using s1 h by (simp add: onComplete_def del: step.simps(1))
      then show ?thesis using fin [of ?s2] by (simp del: step.simps)
    qed
    show ?thesis using c1 c2 by (simp add: terminals_def del: run.simps)
  qed
  show "(startsWith (trim line) ''data: '' \<and> trim (slice 6 (trim line)) = dataStr \<and> dataStr \<noteq> [] \<and>
    currentEvent s = Some ''done'' \<longrightarrow>
      process_line P v h line s =
        Return (s\<lparr>calls := calls s @
                  [OnComplete (case JSON_parse P dataStr of None \<Rightarrow> Undefined
                               | Some d \<Rightarrow> conversation_id d)]\<rparr>)) \<and>
   (phase s = AwaitRead \<longrightarrow>
      step P v h ReadDone s = s\<lparr>calls := calls s @ [OnComplete Undefined], phase := Finished\<rparr>) \<and>
   ((v = Authenticated \<longrightarrow> truthy_token tok) \<and> ok r \<and> body_present r \<longrightarrow>
      (trim p = p \<and> p \<noteq> [] \<and> LF \<notin> set p \<longrightarrow>
         filter is_terminal
           (calls (run P v h
              (FetchFulfilled r # ReadChunk (unlines [''event: done'', ''data: '' @ p]) # evs)
              (start v h tok))) =
           [OnComplete (case JSON_parse P p of None \<Rightarrow> Undefined
                        | Some d \<Rightarrow> conversation_id d)]) \<and>
      filter is_terminal (calls (run P v h (FetchFulfilled r # ReadDone # evs) (start v h tok))) =
        [OnComplete Undefined])"
    using A B C by blast
qed

theorem done_completes_witness:
  "has_onComplete both \<and>
   startsWith (trim (''data: '' @ payload_42)) ''data: '' \<and>
   trim (slice 6 (trim (''data: '' @ payload_42))) = payload_42 \<and> payload_42 \<noteq> [] \<and>
   currentEvent (run reference Authenticated both
                   [FetchFulfilled response_200, ReadChunk (unlines [''event: done''])]
                   (start Authenticated both (Some ''jwt''))) = Some ''done'' \<and>
   phase (run reference Authenticated both
            [FetchFulfilled response_200, ReadChunk (unlines [''event: done''])]
            (start Authenticated both (Some ''jwt''))) = AwaitRead \<and>
   truthy_token (Some ''jwt'') \<and> ok response_200 \<and>
   body_present response_200 \<and> trim payload_42 = payload_42 \<and> LF \<notin> set payload_42 \<and>
   JSON_parse reference payload_42 = Some (JObj [(''conversation_id'', JNum 42)]) \<and>
   conversation_id (JObj [(''conversation_id'', JNum 42)] :: int json) = Val (JNum 42) \<and>
   filter is_terminal
     (calls (run reference Authenticated both
        (FetchFulfilled response_200 #
         ReadChunk (unlines [''event: done'', ''data: '' @ payload_42]) # [TimerFired])
        (start Authenticated both (Some ''jwt'')))) =
     [OnComplete (case JSON_parse reference payload_42 of None \<Rightarrow> Undefined
                  | Some d \<Rightarrow> conversation_id d)] \<and>
   filter is_terminal
     (calls (run reference Authenticated both (FetchFulfilled response_200 # ReadDone # [TimerFired])
        (start Authenticated both (Some ''jwt'')))) = [OnComplete Undefined]"
proof -
  have a: "has_onComplete both \<and> truthy_token (Some ''jwt'') \<and>
           ok response_200 \<and> body_present response_200"
    by (simp add: both_def response_200_def ok_def truthy_token_def)
  have b: "startsWith (trim (''data: '' @ payload_42)) ''data: '' \<and>
           trim (slice 6 (trim (''data: '' @ payload_42))) = payload_42 \<and> payload_42 \<noteq> [] \<and>
           trim payload_42 = payload_42 \<and> LF \<notin> set payload_42"
    by code_simp
  have c: "currentEvent (run reference Authenticated both
                   [FetchFulfilled response_200, ReadChunk (unlines [''event: done''])]
                   (start Authenticated both (Some ''jwt''))) = Some ''done'' \<and>
           phase (run reference Authenticated both
            [FetchFulfilled response_200, ReadChunk (unlines [''event: done''])]
            (start Authenticated both (Some ''jwt''))) = AwaitRead"
    by code_simp
  have j: "JSON_parse reference payload_42 = Some (JObj [(''conversation_id'', JNum 42)])"
    by code_simp
  have i: "conversation_id (JObj [(''conversation_id'', JNum 42)] :: int json) = Val (JNum 42)"
    by (simp add: conversation_id_def)
  show ?thesis
    using done_completes
            [of both "''data: '' @ payload_42" payload_42
                "run reference Authenticated both
                   [FetchFulfilled response_200, ReadChunk (unlines [''event: done''])]
                   (start Authenticated both (Some ''jwt''))"
                reference Authenticated "Some ''jwt''" response_200 payload_42 "[TimerFired]"]
          a b c j i
    by blast
qed

subsection \<open>Cancellation\<close>

lemma run_append: "run P v h (a @ b) s = run P v h b (run P v h a s)"
  by (induction a arbitrary: s) simp_all

lemma step_handle: "handle (step P v h e s) = handle s"
  by (cases e)
     (auto simp add: on_response_def on_chunk_fields catch_block_def removeToken_def
        loop_head_def onComplete_def flush_def cancel_def split: phase.splits handle.splits)

lemma run_handle: "handle (run P v h evs s) = handle s"
  by (induction evs arbitrary: s) (simp_all add: step_handle)

lemma start_NoOp: "handle (start v h tok) = NoOp \<Longrightarrow> phase (start v h tok) = Finished"
  by (cases v) (simp_all add: start_def streamChat_def streamChatPublic_def fresh_def split: if_splits)

lemma filter_OnError_terminals: "filter is_OnError cs = filter is_OnError (terminals cs)"
proof (induction cs)
  case Nil
  show ?case by simp
next
  case (Cons c cs)
  then show ?case by (cases c) simp_all
qed

lemma on_chunk_OnError:
  "filter is_OnError (calls (on_chunk P v h t s)) = filter is_OnError (calls s)"
proof -
  obtain ls b where r: "reassemble (buffer s) t = (ls, b)" by (cases "reassemble (buffer s) t")
  have "line_rel h (s\<lparr>buffer := b\<rparr>) (process_lines P v h ls (s\<lparr>buffer := b\<rparr>))" by simp
  then have "filter is_OnError (terminals (calls (on_chunk P v h t s))) =
             filter is_OnError (terminals (calls s))"
    using r
    by (cases "process_lines P v h ls (s\<lparr>buffer := b\<rparr>)")
       (auto simp add: on_chunk_def line_rel.simps)
  then show ?thesis using filter_OnError_terminals by metis
qed

lemma timer_ok_on_chunk: "timer_ok s \<Longrightarrow> timer_ok (on_chunk P v h t s)"
proof -
  assume a: "timer_ok s"
  obtain ls b where r: "reassemble (buffer s) t = (ls, b)" by (cases "reassemble (buffer s) t")
  have "line_rel h (s\<lparr>buffer := b\<rparr>) (process_lines P v h ls (s\<lparr>buffer := b\<rparr>))" by simp
  then show ?thesis using r a
    by (cases "process_lines P v h ls (s\<lparr>buffer := b\<rparr>)")
       (auto simp add: on_chunk_def line_rel.simps)
qed

lemma timer_ok_step: "timer_ok s \<Longrightarrow> timer_ok (step P v h e s)"
  by (cases e) (auto simp add: on_response_def timer_ok_flush timer_ok_on_chunk split: phase.splits)

lemma silenced_step:
  "silenced s \<Longrightarrow>
   silenced (step P v h e s) \<and>
   filter is_OnError (calls (step P v h e s)) = filter is_OnError (calls s)"
proof -
  assume a: "silenced s"
  then have t: "timer_ok (step P v h e s)" by (simp add: silenced_def timer_ok_step)
  have p: "aborted (step P v h e s) \<or> phase (step P v h e s) = Finished"
  proof (cases "phase s = Finished")
    case True
    then show ?thesis using step_Finished [of s P v h e] by simp
  next
    case False
    then have ab: "aborted s" using a by (simp add: silenced_def)
    show ?thesis
    proof (cases "e = CancelCalled")
      case True
      then show ?thesis using ab by (simp add: cancel_def split: handle.splits)
    next
      case False
      then show ?thesis using ab step_aborted [of e P v h s] by auto
    qed
  qed
  have c: "filter is_OnError (calls (step P v h e s)) = filter is_OnError (calls s)"
  proof (cases "phase s = Finished")
    case True
    then have "terminals (calls (step P v h e s)) = terminals (calls s)"
      using step_Finished [of s P v h e] by simp
    then show ?thesis using filter_OnError_terminals by metis
  next
    case False
    then have ab: "aborted s" using a by (simp add: silenced_def)
    then show ?thesis
      by (cases e) (auto simp add: on_response_def on_chunk_OnError flush_def split: phase.splits)
  qed
  show ?thesis using t p c by (simp add: silenced_def)
qed

lemma silenced_run:
  "silenced s \<Longrightarrow>
   silenced (run P v h evs s) \<and>
   filter is_OnError (calls (run P v h evs s)) = filter is_OnError (calls s)"
proof (induction evs arbitrary: s)
  case Nil
  then show ?case by simp
next
  case (Cons e evs)
  then show ?case using silenced_step [of s P v h e] by simp
qed

lemma quiet_refl [simp]: "quiet s s"
  by (simp add: quiet_def)

lemma quiet_trans: "quiet s s' \<Longrightarrow> quiet s' s'' \<Longrightarrow> quiet s s''"
  by (auto simp add: quiet_def)

lemma quiet_step: "silenced s \<Longrightarrow> \<not> is_read e \<Longrightarrow> quiet s (step P v h e s)"
proof (cases "phase s = Finished")
  case True
  assume "silenced s" "\<not> is_read e"
  then show ?thesis using True
    by (cases e) (auto simp add: quiet_def silenced_def timer_ok_def flush_def cancel_def
                    split: handle.splits if_splits)
next
  case False
  assume a: "silenced s" "\<not> is_read e"
  then have "aborted s" using False by (simp add: silenced_def)
  then show ?thesis using a
    by (cases e)
       (auto simp add: quiet_def silenced_def timer_ok_def flush_def cancel_def on_response_def
          catch_block_def removeToken_def loop_head_def split: handle.splits if_splits phase.splits)
qed

lemma quiet_run:
  "silenced s \<Longrightarrow> \<forall>e \<in> set evs. \<not> is_read e \<Longrightarrow> quiet s (run P v h evs s)"
proof (induction evs arbitrary: s)
  case Nil
  show ?case by simp
next
  case (Cons e evs)
  have q: "quiet s (step P v h e s)" using Cons.prems by (simp add: quiet_step)
  have "silenced (step P v h e s)" using Cons.prems(1) silenced_step by blast
  then have "quiet (step P v h e s) (run P v h evs (step P v h e s))"
    using Cons.IH Cons.prems(2) by simp
  then show ?case using q quiet_trans by auto
qed

lemma silenced_cancel: "silenced (cancel (run P v h pre (start v h tok)))"
proof -
  let ?s = "run P v h pre (start v h tok)"
  have "inv1 h ?s" by (rule inv1_run) (rule inv1_start)
  then have t: "timer_ok ?s" by (simp add: inv1_def)
  show ?thesis
  proof (cases "handle (start v h tok :: 'a stream)")
    case CancelFn
    then have "handle ?s = CancelFn" by (simp add: run_handle)
    then show ?thesis using t by (simp add: silenced_def cancel_def)
  next
    case NoOp
    then have "phase ?s = Finished" using start_NoOp run_Finished by blast
    then show ?thesis using t by (simp add: silenced_def)
  qed
qed

lemma on_chunk_aborted_ends: "aborted s \<Longrightarrow> phase (on_chunk P v h t s) = Finished"
proof -
  assume a: "aborted s"
  obtain ls b where r: "reassemble (buffer s) t = (ls, b)" by (cases "reassemble (buffer s) t")
  have "line_rel h (s\<lparr>buffer := b\<rparr>) (process_lines P v h ls (s\<lparr>buffer := b\<rparr>))" by simp
  then show ?thesis using r a
    by (cases "process_lines P v h ls (s\<lparr>buffer := b\<rparr>)")
       (auto simp add: on_chunk_def frame_def line_rel.simps)
qed

lemma silenced_phase_step:
  "silenced s \<Longrightarrow> phase s \<noteq> AwaitRead \<or> is_read e \<Longrightarrow> phase (step P v h e s) \<noteq> AwaitRead"
proof (cases "phase s = Finished")
  case True
  then show ?thesis using step_Finished [of s P v h e] by simp
next
  case False
  assume "silenced s" and c: "phase s \<noteq> AwaitRead \<or> is_read e"
  then have ab: "aborted s" using False by (simp add: silenced_def)
  show ?thesis using ab c
    by (cases e)
       (auto simp add: on_response_def on_chunk_aborted_ends cancel_def
          split: phase.splits handle.splits)
qed

lemma quiet_step_idle:
  "silenced s \<Longrightarrow> phase s \<noteq> AwaitRead \<Longrightarrow> quiet s (step P v h e s)"
proof (cases "is_read e")
  case True
  assume "phase s \<noteq> AwaitRead"
  then have "step P v h e s = s" using True by (cases e) simp_all
  then show ?thesis by simp
next
  case False
  assume "silenced s"
  then show ?thesis using False by (rule quiet_step)
qed

lemma quiet_run_idle:
  "silenced s \<Longrightarrow> phase s \<noteq> AwaitRead \<Longrightarrow>
   quiet s (run P v h evs s) \<and> phase (run P v h evs s) \<noteq> AwaitRead"
proof (induction evs arbitrary: s)
  case Nil
  then show ?case by simp
next
  case (Cons e evs)
  have q: "quiet s (step P v h e s)" using Cons.prems by (simp add: quiet_step_idle)
  have s: "silenced (step P v h e s)" using Cons.prems(1) silenced_step by blast
  have p: "phase (step P v h e s) \<noteq> AwaitRead"
    using Cons.prems by (simp add: silenced_phase_step)
  have "quiet (step P v h e s) (run P v h evs (step P v h e s)) \<and>
        phase (run P v h evs (step P v h e s)) \<noteq> AwaitRead"
    using s p by (rule Cons.IH)
  then show ?case using q quiet_trans by auto
qed

lemma read_ends_run:
  "silenced s \<Longrightarrow> list_ex is_read evs \<Longrightarrow> phase (run P v h evs s) \<noteq> AwaitRead"
proof (induction evs arbitrary: s)
  case Nil
  then show ?case by simp
next
  case (Cons e evs)
  have s: "silenced (step P v h e s)" using Cons.prems(1) silenced_step by blast
  show ?case
  proof (cases "is_read e")
    case True
    then have "phase (step P v h e s) \<noteq> AwaitRead"
      using Cons.prems(1) by (simp add: silenced_phase_step)
    then show ?thesis using s quiet_run_idle [of "step P v h e s" P v h evs] by simp
  next
    case False
    then have "list_ex is_read evs" using Cons.prems(2) by simp
    then show ?thesis using s Cons.IH by simp
  qed
qed

text \<open>
  After the caller has invoked the function returned, at any point of a stream:
  \<open>onError\<close> is never invoked, whatever happens. A stream that was not waiting for a read
  of the body stays silent whatever follows: no terminal callback, and \<open>onToken\<close> at most
  once, by the flush that was scheduled before the cancellation, with the text buffered
  then; so does a stream whose pending read does not fulfil. A read that fulfils after
  the cancellation is processed, and it is the last: the head of the loop then ends the
  function, and what follows is silent in the same sense. The cancel function of a
  started stream sets the flag and aborts the transport.
\<close>

lemma after_cancel:
  fixes s1 s2 :: "'n stream"
  assumes "s1 = run P v h pre (start v h tok)"
    and "s2 = run P v h (pre @ CancelCalled # post) (start v h tok)"
  shows "filter is_OnError (calls s2) = filter is_OnError (calls s1)"
    and "phase s1 \<noteq> AwaitRead \<or> (\<forall>e \<in> set post. \<not> is_read e) \<Longrightarrow>
         at_most_flush s1 s2 \<and> filter is_terminal (calls s2) = filter is_terminal (calls s1)"
    and "list_ex is_read post \<Longrightarrow>
         phase s2 \<noteq> AwaitRead \<and> at_most_flush s2 (run P v h later s2) \<and>
         filter is_terminal (calls (run P v h later s2)) = filter is_terminal (calls s2)"
    and "handle s1 = CancelFn \<Longrightarrow>
         aborted (run P v h (pre @ [CancelCalled]) (start v h tok)) \<and>
         signal_aborted (run P v h (pre @ [CancelCalled]) (start v h tok))"
proof -
  have s2: "s2 = run P v h post (cancel s1)" unfolding assms by (simp add: run_append)
  have sc: "silenced (cancel s1)" unfolding assms(1) by (rule silenced_cancel)
  have c1: "calls (cancel s1) = calls s1 \<and> visualBuffer (cancel s1) = visualBuffer s1 \<and>
            flushTimeout (cancel s1) = flushTimeout s1 \<and> phase (cancel s1) = phase s1"
    by (simp add: cancel_def split: handle.splits)
  show "filter is_OnError (calls s2) = filter is_OnError (calls s1)"
    using silenced_run [OF sc, of P v h post] s2 c1 by simp
  have ss: "silenced s2" using silenced_run [OF sc, of P v h post] s2 by simp
  show "at_most_flush s1 s2 \<and> filter is_terminal (calls s2) = filter is_terminal (calls s1)"
    if "phase s1 \<noteq> AwaitRead \<or> (\<forall>e \<in> set post. \<not> is_read e)"
  proof -
    have "quiet (cancel s1) s2"
      using that quiet_run [OF sc, of post P v h] quiet_run_idle [OF sc, of P v h post] s2 c1
      by auto
    then show ?thesis using c1 by (auto simp add: quiet_def at_most_flush_def)
  qed
  show "phase s2 \<noteq> AwaitRead \<and> at_most_flush s2 (run P v h later s2) \<and>
        filter is_terminal (calls (run P v h later s2)) = filter is_terminal (calls s2)"
    if "list_ex is_read post"
  proof -
    have p: "phase s2 \<noteq> AwaitRead" using read_ends_run [OF sc that, of P v h] s2 by simp
    have "quiet s2 (run P v h later s2)" using quiet_run_idle [OF ss p, of P v h later] by simp
    then show ?thesis using p by (auto simp add: quiet_def at_most_flush_def)
  qed
  show "aborted (run P v h (pre @ [CancelCalled]) (start v h tok)) \<and>
        signal_aborted (run P v h (pre @ [CancelCalled]) (start v h tok))"
    if "handle s1 = CancelFn"
    using that unfolding assms by (simp add: run_append cancel_def)
qed

text \<open>
  Claim C2: what the code does when a read of the body fulfils after the cancellation.
  The flag \<open>aborted\<close> is tested at the head of the loop and in the \<open>catch\<close> block, not after
  \<open>await reader.read()\<close>. Below, the response has arrived and the caller cancels while the
  first read is pending; no callback has been invoked. When the read then reports the
  end of the data, \<open>onComplete\<close> is invoked; when it delivers a chunk, the chunk is
  processed, tokens and completion with it, and a flush is scheduled that delivers a
  token later. Only then does the head of the loop end the function: a second read is
  not processed. When the read is rejected, or when the caller cancels before the
  response arrives, the stream is silent.
\<close>

theorem cancel_then_read:
  "aborted (run reference Authenticated both [FetchFulfilled response_200, CancelCalled]
              (start Authenticated both (Some ''jwt''))) \<and>
   signal_aborted (run reference Authenticated both [FetchFulfilled response_200, CancelCalled]
              (start Authenticated both (Some ''jwt''))) \<and>
   phase (run reference Authenticated both [FetchFulfilled response_200, CancelCalled]
            (start Authenticated both (Some ''jwt''))) = AwaitRead \<and>
   calls (run reference Authenticated both [FetchFulfilled response_200, CancelCalled]
            (start Authenticated both (Some ''jwt''))) = [] \<and>
   calls (run reference Authenticated both [FetchFulfilled response_200, CancelCalled, ReadDone]
            (start Authenticated both (Some ''jwt''))) = [OnComplete Undefined] \<and>
   calls (run reference Public both [FetchFulfilled response_200, CancelCalled, ReadDone]
            (start Public both None)) = [OnComplete Undefined] \<and>
   calls (run reference Authenticated both
            [FetchFulfilled response_200, CancelCalled, ReadChunk wire_legacy]
            (start Authenticated both (Some ''jwt''))) =
     [OnToken (JStr ''Hi''), OnComplete Undefined] \<and>
   calls (run reference Authenticated both
            [FetchFulfilled response_200, CancelCalled,
             ReadChunk (unlines [''event: token'', ''data: a''])]
            (start Authenticated both (Some ''jwt''))) = [] \<and>
   phase (run reference Authenticated both
            [FetchFulfilled response_200, CancelCalled,
             ReadChunk (unlines [''event: token'', ''data: a''])]
            (start Authenticated both (Some ''jwt''))) = Finished \<and>
   calls (run reference Authenticated both
            [FetchFulfilled response_200, CancelCalled,
             ReadChunk (unlines [''event: token'', ''data: a'']),
             ReadChunk (unlines [''data: b'']), ReadDone, TimerFired]
            (start Authenticated both (Some ''jwt''))) = [OnToken (JStr ''a'')] \<and>
   calls (run reference Authenticated both
            [FetchFulfilled response_200, CancelCalled,
             ReadRejected (ErrorInstance ''AbortError''), TimerFired]
            (start Authenticated both (Some ''jwt''))) = [] \<and>
   calls (run reference Authenticated both
            [CancelCalled, FetchFulfilled response_200, ReadChunk wire_legacy, ReadDone,
             TimerFired]
            (start Authenticated both (Some ''jwt''))) = [] \<and>
   calls (run reference Authenticated both
            [CancelCalled, FetchFulfilled response_500,
             JsonSettled (Some (JObj [(''detail'', JStr ''server overloaded'')]))]
            (start Authenticated both (Some ''jwt''))) = [] \<and>
   calls (run reference Authenticated both
            [CancelCalled, FetchRejected (ErrorInstance ''AbortError'')]
            (start Authenticated both (Some ''jwt''))) = []"
  by code_simp

subsection \<open>The documented examples\<close>

lemma event_line_any:
  "trim l \<noteq> [] \<Longrightarrow> startsWith (trim l) ''event: '' \<Longrightarrow> trim (slice 7 (trim l)) = e \<Longrightarrow>
   process_line P v h l s = Continue (s\<lparr>currentEvent := Some e\<rparr>)"
  by (simp add: process_line_def Let_def)

lemma token_line:
  "startsWith (trim l) ''data: '' \<Longrightarrow> trim (slice 6 (trim l)) = d \<Longrightarrow> d \<noteq> [] \<Longrightarrow>
   currentEvent s = Some ''token'' \<Longrightarrow>
   process_line P v h l s = Continue (append_visual d s)"
  using startsWith_data [of "trim l"] by (simp add: process_line_def Let_def)

lemma blank_line:
  "trim l = [] \<Longrightarrow> currentEvent s \<noteq> Some ''done'' \<Longrightarrow>
   process_line P v h l s = Continue (s\<lparr>currentEvent := None\<rparr>)"
  by (simp add: process_line_def Let_def)

lemma wire_named_lines:
  "reassemble [] wire_named =
     ([''event: token'', ''data: Hello'', [], ''event: token'', ''data:  world'', [],
       ''event: done'', ''data: '' @ payload_42, []], [])"
  by code_simp

lemma wire_named_facts:
  "trim ''event: token'' \<noteq> [] \<and> startsWith (trim ''event: token'') ''event: '' \<and>
   trim (slice 7 (trim ''event: token'')) = ''token'' \<and>
   trim ''event: done'' \<noteq> [] \<and> startsWith (trim ''event: done'') ''event: '' \<and>
   trim (slice 7 (trim ''event: done'')) = ''done'' \<and>
   startsWith (trim ''data: Hello'') ''data: '' \<and> trim (slice 6 (trim ''data: Hello'')) = ''Hello'' \<and>
   startsWith (trim ''data:  world'') ''data: '' \<and>
   trim (slice 6 (trim ''data:  world'')) = ''world'' \<and>
   startsWith (trim (''data: '' @ payload_42)) ''data: '' \<and>
   trim (slice 6 (trim (''data: '' @ payload_42))) = payload_42 \<and> payload_42 \<noteq> [] \<and>
   trim [] = []"
  by code_simp

lemma started:
  assumes "v = Authenticated \<longrightarrow> truthy_token tok" and "ok r" and "body_present r"
  shows "step P v h (FetchFulfilled r) (start v h tok) =
           (start v h tok)\<lparr>buffer := [], currentEvent := None, phase := AwaitRead\<rparr> \<and>
         calls (start v h tok) = [] \<and> visualBuffer (start v h tok) = [] \<and>
         \<not> flushTimeout (start v h tok) \<and> timers (start v h tok) = 0 \<and>
         \<not> aborted (start v h tok)"
proof -
  have "status r \<noteq> 401" using assms(2) by (simp add: ok_def)
  then show ?thesis using assms
    by (cases v)
       (simp_all add: start_def streamChat_def streamChatPublic_def fresh_def on_response_def
          loop_head_def)
qed

lemma named_one_chunk:
  "(v = Authenticated \<longrightarrow> truthy_token tok) \<and> has_onComplete h \<and> ok r \<and> body_present r \<and>
   JSON_parse P payload_42 = Some (JObj [(''conversation_id'', JNum n)]) \<longrightarrow>
   calls (run P v h [FetchFulfilled r, ReadChunk wire_named, TimerFired] (start v h tok)) =
     [OnComplete (Val (JNum n)), OnToken (JStr ''Helloworld'')] \<and>
   token_text P
     (calls (run P v h [FetchFulfilled r, ReadChunk wire_named, TimerFired] (start v h tok))) =
     ''Helloworld'' \<and>
   filter is_terminal
     (calls (run P v h [FetchFulfilled r, ReadChunk wire_named, TimerFired] (start v h tok))) =
     [OnComplete (Val (JNum n))]"
proof (intro impI)
  assume a: "(v = Authenticated \<longrightarrow> truthy_token tok) \<and> has_onComplete h \<and> ok r \<and>
    body_present r \<and> JSON_parse P payload_42 = Some (JObj [(''conversation_id'', JNum n)])"
  let ?s0 = "start v h tok :: 'a stream"
  let ?s1 = "?s0\<lparr>buffer := [], currentEvent := None, phase := AwaitRead\<rparr>"
  have st: "step P v h (FetchFulfilled r) ?s0 = ?s1 \<and> calls ?s0 = [] \<and> visualBuffer ?s0 = [] \<and>
            \<not> flushTimeout ?s0 \<and> timers ?s0 = 0 \<and> \<not> aborted ?s0"
    using a by (intro started) simp_all
  note f = wire_named_facts
  have e1: "process_line P v h ''event: token'' s = Continue (s\<lparr>currentEvent := Some ''token''\<rparr>)"
    for s :: "'a stream"
    using f by (intro event_line_any) simp_all
  have e2: "process_line P v h ''event: done'' s = Continue (s\<lparr>currentEvent := Some ''done''\<rparr>)"
    for s :: "'a stream"
    using f by (intro event_line_any) simp_all
  have t1: "currentEvent s = Some ''token'' \<Longrightarrow>
            process_line P v h ''data: Hello'' s = Continue (append_visual ''Hello'' s)"
    for s :: "'a stream"
    using f by (intro token_line) simp_all
  have t2: "currentEvent s = Some ''token'' \<Longrightarrow>
            process_line P v h ''data:  world'' s = Continue (append_visual ''world'' s)"
    for s :: "'a stream"
    using f by (intro token_line) simp_all
  have b: "currentEvent s \<noteq> Some ''done'' \<Longrightarrow>
           process_line P v h [] s = Continue (s\<lparr>currentEvent := None\<rparr>)"
    for s :: "'a stream"
    using f by (intro blank_line) simp_all
  have d: "currentEvent s = Some ''done'' \<Longrightarrow>
           process_line P v h (''data: '' @ payload_42) s = Return (done_event P h payload_42 s)"
    for s :: "'a stream"
    using f by (intro done_line) simp_all
  have ce: "currentEvent (append_visual t s) = currentEvent s" for t and s :: "'a stream"
    by (simp add: append_visual_def Let_def)
  have c: "conversation_id (JObj [(''conversation_id'', JNum n)]) = Val (JNum n)"
    by (simp add: conversation_id_def)
  let ?s2 = "step P v h (ReadChunk wire_named) ?s1"
  have "?s2 = ?s1\<lparr>currentEvent := Some ''done'', visualBuffer := ''Helloworld'',
                   flushTimeout := True, timers := 1,
                   calls := [OnComplete (Val (JNum n))], phase := Finished\<rparr>"
    using a st
    by (simp add: on_chunk_def wire_named_lines e1 e2 t1 t2 b d ce done_event_calls c
          del: append.simps)
       (simp add: append_visual_def Let_def)
  then have "calls (step P v h TimerFired ?s2) =
               [OnComplete (Val (JNum n)), OnToken (JStr ''Helloworld'')]"
    by (simp add: flush_def)
  then have "calls (run P v h [FetchFulfilled r, ReadChunk wire_named, TimerFired] ?s0) =
               [OnComplete (Val (JNum n)), OnToken (JStr ''Helloworld'')]"
    using st by (simp del: step.simps)
  then show "calls (run P v h [FetchFulfilled r, ReadChunk wire_named, TimerFired] (start v h tok)) =
     [OnComplete (Val (JNum n)), OnToken (JStr ''Helloworld'')] \<and>
   token_text P
     (calls (run P v h [FetchFulfilled r, ReadChunk wire_named, TimerFired] (start v h tok))) =
     ''Helloworld'' \<and>
   filter is_terminal
     (calls (run P v h [FetchFulfilled r, ReadChunk wire_named, TimerFired] (start v h tok))) =
     [OnComplete (Val (JNum n))]"
    by (simp add: token_text_def del: run.simps)
qed




subsection \<open>The loop body performs the action of the line\<close>

lemma done_event_onComplete:
  "done_event P h d s =
     onComplete h (case JSON_parse P d of None \<Rightarrow> Undefined | Some x \<Rightarrow> conversation_id x) s"
  by (simp add: done_event_def onComplete_def conversation_id_def split: option.splits)

lemma legacy_event_classify:
  "legacy_event P v h d s = perform h (classify_legacy P v (currentEvent s) d) s"
  by (simp add: legacy_event_def classify_legacy_def raw_fallback_def
        split: option.splits jsval.splits variant.splits)

lemma process_line_classify:
  "process_line P v h l s = perform h (classify P v (currentEvent s) l) s"
  by (simp add: process_line_def classify_def Let_def done_event_onComplete
        legacy_event_classify)

lemma token_text_simps [simp]:
  "token_text P [] = []"
  "token_text P (cs @ ds) = token_text P cs @ token_text P ds"
  "token_text P (c # cs) = token_of P c @ token_text P cs"
  by (simp_all add: token_text_def)

lemma completed_simps [simp]:
  "completed [] = False"
  "completed (a # acts) = (is_Complete a \<or> completed acts)"
  "completed (acts @ bs) = (completed acts \<or> completed bs)"
  by (simp_all add: completed_def)

lemma ordered_append: "ordered (as @ bs) \<Longrightarrow> ordered as \<and> ordered bs"
  by (induction as) auto

lemma ordered_Direct: "ordered (as @ [Direct x]) \<Longrightarrow> \<not> list_ex is_Buffer as"
  by (induction as) auto

lemma perform_sim:
  assumes "sim P h acts s" and "ordered (acts @ [a])" and "\<not> completed acts"
  shows "sim P h (acts @ [a]) (state_of (perform h a s))"
proof (cases a)
  case (Buffer t)
  then show ?thesis using assms(1)
    by (auto simp add: sim_def append_visual_def Let_def timer_ok_def)
next
  case (Direct x)
  then have "\<not> list_ex is_Buffer acts" using assms(2) ordered_Direct by blast
  then show ?thesis using assms(1) Direct by (auto simp add: sim_def)
next
  case (Complete c)
  then show ?thesis using assms(1) by (auto simp add: sim_def onComplete_def)
next
  case (Event e)
  then show ?thesis using assms(1) by (auto simp add: sim_def)
next
  case Ignore
  then show ?thesis using assms(1) by (auto simp add: sim_def)
qed

lemma perform_event:
  "\<not> is_Complete a \<Longrightarrow> currentEvent (state_of (perform h a s)) = event_after (currentEvent s) a"
  by (cases a) (simp_all add: append_visual_def Let_def)

text \<open>The line loop over some lines, from a state that has delivered \<open>acts\<close>.\<close>

lemma process_lines_sim:
  assumes "sim P h acts s" and "\<not> completed acts"
    and "ordered (acts @ line_actions P v (currentEvent s) ls)"
  shows "sim P h (acts @ line_actions P v (currentEvent s) ls)
           (state_of (process_lines P v h ls s)) \<and>
         ((\<exists>s'. process_lines P v h ls s = Return s') \<longleftrightarrow>
            completed (line_actions P v (currentEvent s) ls)) \<and>
         (\<not> completed (line_actions P v (currentEvent s) ls) \<longrightarrow>
            currentEvent (state_of (process_lines P v h ls s)) =
              final_event P v (currentEvent s) ls)"
  using assms
proof (induction ls arbitrary: acts s)
  case Nil
  then show ?case by simp
next
  case (Cons l ls)
  let ?a = "classify P v (currentEvent s) l"
  have pl: "process_line P v h l s = perform h ?a s" by (rule process_line_classify)
  show ?case
  proof (cases "is_Complete ?a")
    case True
    then obtain c where c: "?a = Complete c" by (cases ?a) simp_all
    have "ordered (acts @ [?a])" using Cons.prems(3) True by simp
    then have "sim P h (acts @ [?a]) (state_of (perform h ?a s))"
      using Cons.prems(1,2) by (intro perform_sim)
    then show ?thesis using True pl c by simp
  next
    case False
    then obtain s1 where s1: "perform h ?a s = Continue s1" by (cases ?a) simp_all
    have o: "ordered ((acts @ [?a]) @ line_actions P v (event_after (currentEvent s) ?a) ls)"
      using Cons.prems(3) False by simp
    then have "ordered (acts @ [?a])" using ordered_append by blast
    then have sm: "sim P h (acts @ [?a]) s1"
      using perform_sim [OF Cons.prems(1) _ Cons.prems(2), of ?a] s1 by simp
    have ce: "currentEvent s1 = event_after (currentEvent s) ?a"
      using perform_event [OF False, of h s] s1 by simp
    have nc: "\<not> completed (acts @ [?a])" using Cons.prems(2) False by simp
    have "sim P h ((acts @ [?a]) @ line_actions P v (currentEvent s1) ls)
            (state_of (process_lines P v h ls s1)) \<and>
          ((\<exists>s'. process_lines P v h ls s1 = Return s') \<longleftrightarrow>
             completed (line_actions P v (currentEvent s1) ls)) \<and>
          (\<not> completed (line_actions P v (currentEvent s1) ls) \<longrightarrow>
             currentEvent (state_of (process_lines P v h ls s1)) =
               final_event P v (currentEvent s1) ls)"
      using o ce by (intro Cons.IH [OF sm nc]) simp
    then show ?thesis using False pl s1 ce by simp
  qed
qed

subsection \<open>A stream delivers the actions of the lines it has read\<close>

lemma line_actions_append:
  "line_actions P v ce (l1 @ l2) =
     (if completed (line_actions P v ce l1) then line_actions P v ce l1
      else line_actions P v ce l1 @ line_actions P v (final_event P v ce l1) l2)"
  by (induction l1 arbitrary: ce) simp_all

lemma final_event_append:
  "\<not> completed (line_actions P v ce l1) \<Longrightarrow>
   final_event P v ce (l1 @ l2) = final_event P v (final_event P v ce l1) l2"
  by (induction l1 arbitrary: ce) (simp_all split: if_splits)

lemma lines_append:
  "butlast (split LF (a @ b)) =
     butlast (split LF a) @ butlast (split LF (last (split LF a) @ b)) \<and>
   last (split LF (a @ b)) = last (split LF (last (split LF a) @ b))"
  by (subst (1 2) split_append) (simp add: butlast_append)

lemma ordered_prefix_text:
  "ordered (line_actions P v None (butlast (split LF (a @ b)))) \<Longrightarrow>
   ordered (line_actions P v None (butlast (split LF a)))"
  using lines_append [of a b] ordered_append
  by (auto simp add: line_actions_append split: if_splits)

lemma sim_updates [simp]:
  "sim P h acts (s\<lparr>buffer := b\<rparr>) = sim P h acts s"
  "sim P h acts (s\<lparr>phase := p\<rparr>) = sim P h acts s"
  "sim P h acts (s\<lparr>currentEvent := c\<rparr>) = sim P h acts s"
  by (simp_all add: sim_def)

lemma sim_flush:
  "sim P h acts s \<Longrightarrow> 0 < timers s \<Longrightarrow> sim P h acts (flush (s\<lparr>timers := timers s - Suc 0\<rparr>))"
  using timer_ok_flush [of s] by (auto simp add: sim_def) (auto simp add: flush_def)

lemma pumped_timer: "pumped P v h t s \<Longrightarrow> pumped P v h t (step P v h TimerFired s)"
  by (auto simp add: pumped_def sim_flush) (auto simp add: flush_def)

lemma pumped_chunk:
  assumes p: "pumped P v h t s"
    and o: "ordered (line_actions P v None (butlast (split LF (t @ c))))"
  shows "pumped P v h (t @ c) (step P v h (ReadChunk c) s)"
proof -
  let ?ls = "butlast (split LF t)"
  let ?b = "last (split LF t)"
  let ?new = "butlast (split LF (?b @ c))"
  let ?b' = "last (split LF (?b @ c))"
  let ?acts = "line_actions P v None ?ls"
  have la: "butlast (split LF (t @ c)) = ?ls @ ?new \<and> last (split LF (t @ c)) = ?b'"
    by (rule lines_append)
  have sm: "sim P h ?acts s" and na: "\<not> aborted s" using p by (simp_all add: pumped_def)
  show ?thesis
  proof (cases "completed ?acts")
    case True
    then have "phase s = Finished" using p by (simp add: pumped_def)
    then show ?thesis using True sm na la by (simp add: pumped_def line_actions_append)
  next
    case False
    then have st: "phase s = AwaitRead \<and> buffer s = ?b \<and>
                   currentEvent s = final_event P v None ?ls"
      using p by (simp add: pumped_def)
    let ?s0 = "s\<lparr>buffer := ?b'\<rparr>"
    let ?ce = "final_event P v None ?ls"
    have all: "line_actions P v None (?ls @ ?new) = ?acts @ line_actions P v ?ce ?new"
      using False by (simp add: line_actions_append)
    have o': "ordered (?acts @ line_actions P v (currentEvent ?s0) ?new)"
      using o la all st by simp
    have sm0: "sim P h ?acts ?s0" using sm by simp
    have ps: "sim P h (?acts @ line_actions P v (currentEvent ?s0) ?new)
                (state_of (process_lines P v h ?new ?s0)) \<and>
              ((\<exists>s'. process_lines P v h ?new ?s0 = Return s') \<longleftrightarrow>
                 completed (line_actions P v (currentEvent ?s0) ?new)) \<and>
              (\<not> completed (line_actions P v (currentEvent ?s0) ?new) \<longrightarrow>
                 currentEvent (state_of (process_lines P v h ?new ?s0)) =
                   final_event P v (currentEvent ?s0) ?new)"
      by (rule process_lines_sim [OF sm0 False o'])
    have fr: "line_rel h ?s0 (process_lines P v h ?new ?s0)" by simp
    have re: "reassemble (buffer s) c = (?new, ?b')" using st by (simp add: reassemble_def Let_def)
    have ce0: "currentEvent ?s0 = ?ce" using st by simp
    show ?thesis
    proof (cases "process_lines P v h ?new ?s0")
      case (Continue s')
      then have nc: "\<not> completed (line_actions P v ?ce ?new)" using ps ce0 by auto
      have "step P v h (ReadChunk c) s = s'\<lparr>phase := AwaitRead\<rparr>"
        using st re Continue fr na
        by (simp add: on_chunk_def loop_head_def line_rel.simps frame_def)
      moreover have "buffer s' = ?b' \<and> \<not> aborted s'"
        using fr Continue na by (simp add: line_rel.simps frame_def)
      ultimately show ?thesis
        using ps Continue nc False la all ce0
        by (simp add: pumped_def final_event_append)
    next
      case (Return s')
      then have c: "completed (line_actions P v ?ce ?new)" using ps ce0 by auto
      have "step P v h (ReadChunk c) s = s'\<lparr>phase := Finished\<rparr>"
        using st re Return by (simp add: on_chunk_def)
      moreover have "\<not> aborted s'"
        using fr Return na by (simp add: line_rel.simps frame_def)
      ultimately show ?thesis
        using ps Return c la all ce0 by (simp add: pumped_def)
    qed
  qed
qed

lemma pumped_run:
  "pumped P v h t s \<Longrightarrow> filter (\<lambda>e. e \<noteq> TimerFired) evs = map ReadChunk chunks \<Longrightarrow>
   ordered (line_actions P v None (butlast (split LF (t @ concat chunks)))) \<Longrightarrow>
   pumped P v h (t @ concat chunks) (run P v h evs s)"
proof (induction evs arbitrary: t s chunks)
  case Nil
  then show ?case by simp
next
  case (Cons e evs)
  show ?case
  proof (cases "e = TimerFired")
    case True
    then have "pumped P v h (t @ concat chunks) (run P v h evs (step P v h TimerFired s))"
      using Cons.prems by (intro Cons.IH pumped_timer) simp_all
    then show ?thesis using True by simp
  next
    case False
    then obtain c cs where c: "e = ReadChunk c" "chunks = c # cs"
      "filter (\<lambda>e. e \<noteq> TimerFired) evs = map ReadChunk cs"
      using Cons.prems(2) by (cases chunks) auto
    have o: "ordered (line_actions P v None (butlast (split LF ((t @ c) @ concat cs))))"
      using Cons.prems(3) c by simp
    then have "ordered (line_actions P v None (butlast (split LF (t @ c))))"
      by (rule ordered_prefix_text)
    then have "pumped P v h (t @ c) (step P v h e s)"
      using Cons.prems(1) c by (simp add: pumped_chunk del: step.simps)
    then have "pumped P v h ((t @ c) @ concat cs) (run P v h evs (step P v h e s))"
      using c o by (intro Cons.IH)
    then show ?thesis using c by simp
  qed
qed

lemma start_timers: "timers (start v h tok) = 0"
  by (simp add: start_def streamChat_def streamChatPublic_def fresh_def split: variant.splits)

lemma pumped_start:
  assumes "v = Authenticated \<longrightarrow> truthy_token tok" and "ok r" and "body_present r"
  shows "pumped P v h [] (step P v h (FetchFulfilled r) (start v h tok))"
proof -
  let ?s0 = "start v h tok :: 'a stream"
  have st: "step P v h (FetchFulfilled r) ?s0 =
              ?s0\<lparr>buffer := [], currentEvent := None, phase := AwaitRead\<rparr>"
    and f: "calls ?s0 = [] \<and> visualBuffer ?s0 = [] \<and> \<not> flushTimeout ?s0 \<and> timers ?s0 = 0 \<and>
            \<not> aborted ?s0"
    using started [OF assms, of P h] by blast+
  show ?thesis unfolding st using f by (simp add: pumped_def sim_def timer_ok_def)
qed

lemma pumped_from_start:
  assumes "v = Authenticated \<longrightarrow> truthy_token tok" and "ok r" and "body_present r"
  shows "filter (\<lambda>e. e \<noteq> TimerFired) evs = FetchFulfilled r # map ReadChunk chunks \<Longrightarrow>
         ordered (line_actions P v None (butlast (split LF (concat chunks)))) \<Longrightarrow>
         pumped P v h (concat chunks) (run P v h evs (start v h tok))"
proof (induction evs)
  case Nil
  then show ?case by simp
next
  case (Cons e evs)
  show ?case
  proof (cases "e = TimerFired")
    case True
    have "step P v h e (start v h tok) = start v h tok" using True by (simp add: start_timers)
    then show ?thesis using Cons True by simp
  next
    case False
    then have e: "e = FetchFulfilled r" "filter (\<lambda>e. e \<noteq> TimerFired) evs = map ReadChunk chunks"
      using Cons.prems(1) by simp_all
    have ps: "pumped P v h [] (step P v h (FetchFulfilled r) (start v h tok))"
      by (rule pumped_start [OF assms])
    have o: "ordered (line_actions P v None (butlast (split LF ([] @ concat chunks))))"
      using Cons.prems(2) by simp
    have "pumped P v h ([] @ concat chunks)
            (run P v h evs (step P v h (FetchFulfilled r) (start v h tok)))"
      by (rule pumped_run [OF ps e(2) o])
    then show ?thesis using e by (simp del: step.simps)
  qed
qed

text \<open>What has been delivered when the text is read, and after the next flush.\<close>

lemma pumped_delivered:
  assumes "pumped P v h t s"
  shows "token_text P (calls s) @ visualBuffer s =
           concat (map (action_text P) (line_actions P v None (butlast (split LF t)))) \<and>
         token_text P (calls (step P v h TimerFired s)) =
           concat (map (action_text P) (line_actions P v None (butlast (split LF t)))) \<and>
         (has_onComplete h \<longrightarrow>
            filter is_terminal (calls s) =
              concat (map action_terminal (line_actions P v None (butlast (split LF t)))) \<and>
            filter is_terminal (calls (step P v h TimerFired s)) =
              concat (map action_terminal (line_actions P v None (butlast (split LF t)))))"
proof -
  let ?acts = "line_actions P v None (butlast (split LF t))"
  have sm: "sim P h ?acts s" using assms by (simp add: pumped_def)
  then have d: "token_text P (calls s) @ visualBuffer s = concat (map (action_text P) ?acts)"
    by (simp add: sim_def)
  have t: "timer_ok s" using sm by (simp add: sim_def)
  have f: "token_text P (calls (step P v h TimerFired s)) = token_text P (calls s) @ visualBuffer s"
    using t by (auto simp add: flush_def timer_ok_def split: if_splits)
  have "terminals (calls (step P v h TimerFired s)) = terminals (calls s)"
    by (simp add: flush_def)
  then show ?thesis using sm d f by (simp add: sim_def terminals_def)
qed

subsection \<open>The documented examples under every schedule\<close>

lemma classify_event:
  "trim l \<noteq> [] \<Longrightarrow> startsWith (trim l) ''event: '' \<Longrightarrow> trim (slice 7 (trim l)) = e \<Longrightarrow>
   classify P v ce l = Event (Some e)"
  by (simp add: classify_def Let_def)

lemma classify_token:
  "startsWith (trim l) ''data: '' \<Longrightarrow> trim (slice 6 (trim l)) = d \<Longrightarrow> d \<noteq> [] \<Longrightarrow>
   classify P v (Some ''token'') l = Buffer d"
  using startsWith_data [of "trim l"] by (simp add: classify_def Let_def)

lemma classify_done:
  "startsWith (trim l) ''data: '' \<Longrightarrow> trim (slice 6 (trim l)) = d \<Longrightarrow> d \<noteq> [] \<Longrightarrow>
   classify P v (Some ''done'') l =
     Complete (case JSON_parse P d of None \<Rightarrow> Undefined | Some x \<Rightarrow> conversation_id x)"
  using startsWith_data [of "trim l"] by (simp add: classify_def Let_def)


lemma classify_blank:
  "trim l = [] \<Longrightarrow> ce \<noteq> Some ''done'' \<Longrightarrow> classify P v ce l = Event None"
  by (simp add: classify_def Let_def)

lemma run_single: "run P v h [e] s = step P v h e s"
  by simp

lemma wire_named_actions:
  assumes "JSON_parse P payload_42 = Some (JObj [(''conversation_id'', JNum n)])"
  shows "line_actions P v None (butlast (split LF wire_named)) =
           [Event (Some ''token''), Buffer ''Hello'', Event None,
            Event (Some ''token''), Buffer ''world'', Event None,
            Event (Some ''done''), Complete (Val (JNum n))]"
proof -
  note f = wire_named_facts
  have ls: "butlast (split LF wire_named) =
              [''event: token'', ''data: Hello'', [], ''event: token'', ''data:  world'', [],
               ''event: done'', ''data: '' @ payload_42, []]"
    using wire_named_lines by (simp add: reassemble_def Let_def)
  have e1: "classify P v ce ''event: token'' = Event (Some ''token'')" for ce
    using f by (intro classify_event) simp_all
  have e2: "classify P v ce ''event: done'' = Event (Some ''done'')" for ce
    using f by (intro classify_event) simp_all
  have t1: "classify P v (Some ''token'') ''data: Hello'' = Buffer ''Hello''"
    using f by (intro classify_token) simp_all
  have t2: "classify P v (Some ''token'') ''data:  world'' = Buffer ''world''"
    using f by (intro classify_token) simp_all
  have b: "classify P v (Some ''token'') [] = Event None"
    using f by (intro classify_blank) simp_all
  have d: "classify P v (Some ''done'') (''data: '' @ payload_42) = Complete (Val (JNum n))"
    using f assms by (subst classify_done [of _ payload_42]) (simp_all add: conversation_id_def)
  show ?thesis unfolding ls by (simp add: e1 e2 t1 t2 b d del: append.simps)
qed

text \<open>
  Claim C3, as the code has it. The wire text of the example, cut into chunks in any
  way, the flush timer firing at any points in between: the data of each token is
  trimmed before it is buffered, so what the token callbacks have delivered, with what
  waits in the coalescing buffer, is \<open>Helloworld\<close>, and after one more flush the token
  callbacks have delivered \<open>Helloworld\<close>; there is one terminal callback, \<open>onComplete\<close> with
  the conversation id that \<open>JSON.parse\<close> reads from \<open>{"conversation_id": 42}\<close>. Read in
  one chunk, the text gives \<open>onComplete\<close> first and then one \<open>onToken\<close> with \<open>Helloworld\<close>.
\<close>

theorem named_events:
  "(v = Authenticated \<longrightarrow> truthy_token tok) \<and> has_onComplete h \<and> ok r \<and> body_present r \<and>
   JSON_parse P payload_42 = Some (JObj [(''conversation_id'', JNum n)]) \<and>
   filter (\<lambda>e. e \<noteq> TimerFired) evs = FetchFulfilled r # map ReadChunk chunks \<and>
   concat chunks = wire_named \<longrightarrow>
   token_text P (calls (run P v h (evs @ [TimerFired]) (start v h tok))) = ''Helloworld'' \<and>
   filter is_terminal (calls (run P v h (evs @ [TimerFired]) (start v h tok))) =
     [OnComplete (Val (JNum n))] \<and>
   token_text P (calls (run P v h evs (start v h tok))) @
     visualBuffer (run P v h evs (start v h tok)) = ''Helloworld'' \<and>
   filter is_terminal (calls (run P v h evs (start v h tok))) = [OnComplete (Val (JNum n))] \<and>
   phase (run P v h evs (start v h tok)) = Finished \<and>
   calls (run P v h [FetchFulfilled r, ReadChunk wire_named, TimerFired] (start v h tok)) =
     [OnComplete (Val (JNum n)), OnToken (JStr ''Helloworld'')]"
proof (intro impI)
  assume a: "(v = Authenticated \<longrightarrow> truthy_token tok) \<and> has_onComplete h \<and> ok r \<and>
    body_present r \<and> JSON_parse P payload_42 = Some (JObj [(''conversation_id'', JNum n)]) \<and>
    filter (\<lambda>e. e \<noteq> TimerFired) evs = FetchFulfilled r # map ReadChunk chunks \<and>
    concat chunks = wire_named"
  let ?s = "run P v h evs (start v h tok)"
  have acts: "line_actions P v None (butlast (split LF wire_named)) =
           [Event (Some ''token''), Buffer ''Hello'', Event None,
            Event (Some ''token''), Buffer ''world'', Event None,
            Event (Some ''done''), Complete (Val (JNum n))]"
    using a wire_named_actions [of P n v] by simp
  have c: "concat chunks = wire_named" using a by simp
  have p: "pumped P v h (concat chunks) ?s"
    using a by (intro pumped_from_start) (simp_all add: acts)
  have one: "calls (run P v h [FetchFulfilled r, ReadChunk wire_named, TimerFired] (start v h tok)) =
               [OnComplete (Val (JNum n)), OnToken (JStr ''Helloworld'')]"
    using named_one_chunk [of v tok h r P n] a by blast
  have fin: "phase ?s = Finished" using p by (simp add: pumped_def acts c)
  show "token_text P (calls (run P v h (evs @ [TimerFired]) (start v h tok))) = ''Helloworld'' \<and>
   filter is_terminal (calls (run P v h (evs @ [TimerFired]) (start v h tok))) =
     [OnComplete (Val (JNum n))] \<and>
   token_text P (calls (run P v h evs (start v h tok))) @
     visualBuffer (run P v h evs (start v h tok)) = ''Helloworld'' \<and>
   filter is_terminal (calls (run P v h evs (start v h tok))) = [OnComplete (Val (JNum n))] \<and>
   phase (run P v h evs (start v h tok)) = Finished \<and>
   calls (run P v h [FetchFulfilled r, ReadChunk wire_named, TimerFired] (start v h tok)) =
     [OnComplete (Val (JNum n)), OnToken (JStr ''Helloworld'')]"
    using pumped_delivered [OF p] a one fin
    by (simp add: acts c run_append run_single del: run.simps(2) step.simps)
qed

theorem named_events_witness:
  "truthy_token (Some ''jwt'') \<and> has_onComplete both \<and> ok response_200 \<and>
   body_present response_200 \<and>
   JSON_parse reference payload_42 = Some (JObj [(''conversation_id'', JNum 42)]) \<and>
   filter (\<lambda>e. e \<noteq> TimerFired)
     [TimerFired, FetchFulfilled response_200, ReadChunk (take 20 wire_named), TimerFired,
      ReadChunk (drop 20 wire_named)] =
     FetchFulfilled response_200 # map ReadChunk [take 20 wire_named, drop 20 wire_named] \<and>
   concat [take 20 wire_named, drop 20 wire_named] = wire_named \<and>
   token_text reference
     (calls (run reference Authenticated both
               ([TimerFired, FetchFulfilled response_200, ReadChunk (take 20 wire_named),
                 TimerFired, ReadChunk (drop 20 wire_named)] @ [TimerFired])
               (start Authenticated both (Some ''jwt'')))) = ''Helloworld'' \<and>
   filter is_terminal
     (calls (run reference Authenticated both
               ([TimerFired, FetchFulfilled response_200, ReadChunk (take 20 wire_named),
                 TimerFired, ReadChunk (drop 20 wire_named)] @ [TimerFired])
               (start Authenticated both (Some ''jwt'')))) = [OnComplete (Val (JNum 42))] \<and>
   calls (run reference Authenticated both
            [FetchFulfilled response_200, ReadChunk wire_named, TimerFired]
            (start Authenticated both (Some ''jwt''))) =
     [OnComplete (Val (JNum 42)), OnToken (JStr ''Helloworld'')]"
proof -
  have a: "truthy_token (Some ''jwt'') \<and> has_onComplete both \<and> ok response_200 \<and>
           body_present response_200"
    by (simp add: truthy_token_def both_def response_200_def ok_def)
  have j: "JSON_parse reference payload_42 = Some (JObj [(''conversation_id'', JNum 42)])"
    by code_simp
  have f: "filter (\<lambda>e. e \<noteq> TimerFired)
     [TimerFired, FetchFulfilled response_200, ReadChunk (take 20 wire_named), TimerFired,
      ReadChunk (drop 20 wire_named) :: int event] =
     FetchFulfilled response_200 # map ReadChunk [take 20 wire_named, drop 20 wire_named]"
    by simp
  have c: "concat [take 20 wire_named, drop 20 wire_named] = wire_named" by simp
  show ?thesis
    using named_events
            [of Authenticated "Some ''jwt''" both response_200 reference 42
                "[TimerFired, FetchFulfilled response_200, ReadChunk (take 20 wire_named),
                  TimerFired, ReadChunk (drop 20 wire_named)]"
                "[take 20 wire_named, drop 20 wire_named]"] a j f c
    by (simp del: run.simps step.simps)
qed

text \<open>
  Claim C3 as it is stated fails: the second token is sent as \<open>data:  world\<close>, and the
  callbacks deliver \<open>Helloworld\<close>, not \<open>Hello world\<close>, in \<open>streamChat\<close> as in
  \<open>streamChatPublic\<close>.
\<close>

theorem named_events_counterexample:
  "token_text reference
     (calls (run reference Authenticated both
               [FetchFulfilled response_200, ReadChunk wire_named, TimerFired]
               (start Authenticated both (Some ''jwt'')))) \<noteq> ''Hello world'' \<and>
   token_text reference
     (calls (run reference Public both
               [FetchFulfilled response_200, ReadChunk wire_named, TimerFired]
               (start Public both None))) \<noteq> ''Hello world'' \<and>
   token_text reference
     (calls (run reference Authenticated both
               [FetchFulfilled response_200, ReadChunk wire_named, TimerFired]
               (start Authenticated both (Some ''jwt'')))) = ''Helloworld''"
  by code_simp







end
